theory Spec2Isabelle
  imports Main "HOL-Library.Sublist"
begin

section \<open>Lexical path cleaning\<close>

text \<open>
  Both variants of the request resolver start with
  \<^verbatim>\<open>reqpath := filepath.Clean("/" + r.URL.Path)\<close>; the first variant goes on with
  \<^verbatim>\<open>filepath.Join(reqpath, "index.html")\<close>, the second with
  \<^verbatim>\<open>filepath.Join(fs.root, filepath.Clean("/"+r.URL.Path))\<close>. The separator is the
  forward slash and there is no volume name (Unix paths). A Go string is a byte
  sequence, here a \<^typ>\<open>string\<close>.
\<close>

abbreviation Separator :: char where
  "Separator \<equiv> CHR ''/''"

text \<open>
  Modelled from the spec: \<^verbatim>\<open>filepath.Clean\<close> and \<^verbatim>\<open>filepath.Join\<close> belong to
  the Go standard library and are not part of the repository's sources; the spec says
  of them only that the path is cleaned by ``normalizing \<^verbatim>\<open>.\<close>/\<^verbatim>\<open>..\<close> segments''.
  The definitions \<open>backtrack\<close>, \<open>clean_loop\<close>, \<open>Clean\<close>, \<open>strings_Join\<close> and
  \<open>Join\<close> follow the library's algorithm, byte by byte.

  First the inner loop of the \<^verbatim>\<open>..\<close> case: after \<^verbatim>\<open>out.w--\<close>,
  \<^verbatim>\<open>for out.w > dotdot && !os.IsPathSeparator(out.index(out.w)) { out.w-- }\<close>.
\<close>

function backtrack :: "string \<Rightarrow> nat \<Rightarrow> nat \<Rightarrow> nat" where
  "backtrack buf dotdot w =
     (if w > dotdot \<and> buf ! w \<noteq> Separator then backtrack buf dotdot (w - 1) else w)"
  by pat_completeness auto
termination
  by (relation "measure (\<lambda>(buf, dotdot, w). w)") auto

declare backtrack.simps [simp del]

text \<open>
  Modelled from the spec: the main loop of \<^verbatim>\<open>filepath.Clean\<close> reads the remaining
  input \<open>rest\<close> (the bytes from index \<open>r\<close> on) and writes to the buffer \<open>out\<close>
  (the bytes below \<open>out.w\<close>); \<open>dotdot\<close> is the index in the buffer where a
  \<^verbatim>\<open>..\<close> must stop. The loop returns the buffer and \<open>dotdot\<close> at its end.
\<close>

function clean_loop :: "bool \<Rightarrow> string \<Rightarrow> string \<Rightarrow> nat \<Rightarrow> string \<times> nat" where
  "clean_loop rooted [] out dotdot = (out, dotdot)"
| "clean_loop rooted (c # cs) out dotdot =
     (if c = Separator then
        \<comment> \<open>empty path element\<close>
        clean_loop rooted cs out dotdot
      else if c = CHR ''.'' \<and> (cs = [] \<or> hd cs = Separator) then
        \<comment> \<open>\<^verbatim>\<open>.\<close> element\<close>
        clean_loop rooted cs out dotdot
      else if c = CHR ''.'' \<and> hd cs = CHR ''.'' \<and> (tl cs = [] \<or> hd (tl cs) = Separator) then
        \<comment> \<open>\<^verbatim>\<open>..\<close> element: remove to last separator\<close>
        (if length out > dotdot then
           clean_loop rooted (tl cs) (take (backtrack out dotdot (length out - 1)) out) dotdot
         else if \<not> rooted then
           (let out' = (if length out > 0 then out @ [Separator] else out) @ ''..''
            in clean_loop rooted (tl cs) out' (length out'))
         else clean_loop rooted (tl cs) out dotdot)
      else
        \<comment> \<open>real path element: add slash if needed, copy element\<close>
        (let out' = (if rooted \<and> length out \<noteq> 1 \<or> \<not> rooted \<and> length out \<noteq> 0
                     then out @ [Separator] else out)
         in clean_loop rooted (dropWhile (\<lambda>x. x \<noteq> Separator) cs)
              (out' @ c # takeWhile (\<lambda>x. x \<noteq> Separator) cs) dotdot))"
  by pat_completeness auto
termination
  by (relation "measure (\<lambda>(rooted, rest, out, dotdot). length rest)")
     (auto simp: less_Suc_eq_le length_dropWhile_le)

declare clean_loop.simps(2) [simp del]

definition Clean :: "string \<Rightarrow> string" where
  "Clean path =
     (if path = [] then ''.''
      else
        (let rooted = (hd path = Separator);
             fin = (if rooted then clean_loop rooted (tl path) [Separator] 1
                    else clean_loop rooted path [] 0)
         in if fst fin = [] then ''.'' else fst fin))"

text \<open>Modelled from the spec: \<^verbatim>\<open>strings.Join(elems, sep)\<close> of the standard library.\<close>

fun strings_Join :: "string list \<Rightarrow> string \<Rightarrow> string" where
  "strings_Join [] sep = []"
| "strings_Join [e] sep = e"
| "strings_Join (e # es) sep = e @ sep @ strings_Join es sep"

text \<open>
  Modelled from the spec: \<^verbatim>\<open>filepath.Join\<close> of the standard library: the elements
  from the first non-empty one on, joined with the separator and cleaned; the empty
  string when every element is empty.
\<close>

fun Join :: "string list \<Rightarrow> string" where
  "Join [] = []"
| "Join (e # es) = (if e \<noteq> [] then Clean (strings_Join (e # es) [Separator]) else Join es)"

text \<open>
  The state of the main loop at its end, for a non-empty path: rooted paths start
  with the separator in the buffer and \<open>dotdot = 1\<close>.
\<close>

definition clean_fin :: "string \<Rightarrow> string \<times> nat" where
  "clean_fin path =
     (if hd path = Separator then clean_loop True (tl path) [Separator] 1
      else clean_loop False path [] 0)"

subsection \<open>The shape of cleaned paths\<close>

text \<open>A real path element: not empty, without separator, neither \<^verbatim>\<open>.\<close> nor \<^verbatim>\<open>..\<close>.\<close>

definition name_elem :: "string \<Rightarrow> bool" where
  "name_elem s \<longleftrightarrow> s \<noteq> [] \<and> Separator \<notin> set s \<and> s \<noteq> ''.'' \<and> s \<noteq> ''..''"

text \<open>The path made of the given elements, with one separator between two of them.\<close>

definition render :: "bool \<Rightarrow> string list \<Rightarrow> string" where
  "render rooted elems = (if rooted then [Separator] else []) @ strings_Join elems [Separator]"

text \<open>
  The loop invariant: the buffer holds \<open>n\<close> leading \<^verbatim>\<open>..\<close> elements (none in a
  rooted path) followed by real elements, and \<open>dotdot\<close> marks the end of the
  leading \<^verbatim>\<open>..\<close> elements.
\<close>

definition clean_inv :: "bool \<Rightarrow> string \<Rightarrow> nat \<Rightarrow> bool" where
  "clean_inv rooted out dotdot \<longleftrightarrow>
     (\<exists>n elems. list_all name_elem elems \<and> (rooted \<longrightarrow> n = 0) \<and>
        out = render rooted (replicate n ''..'' @ elems) \<and>
        dotdot = length (render rooted (replicate n ''..'')))"

text \<open>\<^verbatim>\<open>strings.Split(p, "/")\<close>, and the non-empty parts of a path.\<close>

fun split_path :: "string \<Rightarrow> string list" where
  "split_path [] = [[]]"
| "split_path (c # cs) =
     (if c = Separator then [] # split_path cs
      else (case split_path cs of [] \<Rightarrow> [[c]] | s # ss \<Rightarrow> (c # s) # ss))"

definition path_elems :: "string \<Rightarrow> string list" where
  "path_elems p = filter (\<lambda>s. s \<noteq> []) (split_path p)"

section \<open>Requests, responses and the backend\<close>

record request =
  req_method :: string
  url_path :: string
  req_header :: "string \<rightharpoonup> string"

text \<open>What a handler has written to the \<^verbatim>\<open>http.ResponseWriter\<close>.\<close>

record response =
  code :: int
  header :: "string \<rightharpoonup> string"
  body :: string

text \<open>\<^verbatim>\<open>httptest.NewRecorder()\<close>: status 200, nothing written.\<close>

definition NewRecorder :: response where
  "NewRecorder = \<lparr>code = 200, header = Map.empty, body = []\<rparr>"

text \<open>
  \<^verbatim>\<open>http.HandlerFunc\<close>: a function writing to the response, or \<^verbatim>\<open>nil\<close>
  (\<open>None\<close>). Calling \<^verbatim>\<open>nil\<close> panics.
\<close>

type_synonym HandlerFunc = "(response \<Rightarrow> request \<Rightarrow> response) option"

text \<open>
  \<^verbatim>\<open>map[int]http.HandlerFunc\<close>: \<open>None\<close> is the \<^verbatim>\<open>nil\<close> map. Indexing yields the
  zero value \<^verbatim>\<open>nil\<close> for a key that is absent, and for every key of the \<^verbatim>\<open>nil\<close> map.
\<close>

type_synonym handler_map = "(int \<rightharpoonup> HandlerFunc) option"

definition index_map :: "handler_map \<Rightarrow> int \<Rightarrow> HandlerFunc" where
  "index_map m c =
     (case m of None \<Rightarrow> None
      | Some t \<Rightarrow> (case t c of None \<Rightarrow> None | Some h \<Rightarrow> h))"

abbreviation StatusNotFound :: int where
  "StatusNotFound \<equiv> 404"

abbreviation StatusInternalServerError :: int where
  "StatusInternalServerError \<equiv> 500"

abbreviation StatusBadRequest :: int where
  "StatusBadRequest \<equiv> 400"

text \<open>
  Modelled from the spec: \<^verbatim>\<open>http.Error\<close> belongs to the Go standard library; it is the
  ``default plain-text handler'' of the spec: it sets the plain-text content type,
  writes the status code and the message followed by a newline.
\<close>

definition http_Error :: "response \<Rightarrow> string \<Rightarrow> int \<Rightarrow> response" where
  "http_Error w msg c =
     w\<lparr>code := c,
       header := (header w)(''Content-Type'' \<mapsto> ''text/plain; charset=utf-8'',
                 ''X-Content-Type-Options'' \<mapsto> ''nosniff''),
       body := body w @ msg @ [CHR 0x0A]\<rparr>"

text \<open>\<^verbatim>\<open>os.FileInfo\<close>: what the resolver reads of it.\<close>

record FileInfo =
  Name :: string
  Size :: int
  ModTime :: int
  IsDir :: bool

text \<open>
  \<^verbatim>\<open>io.ReadSeeker\<close>: the content behind the reader, whether it also has a
  \<^verbatim>\<open>Close\<close> method (it is a \<^verbatim>\<open>vfs.ReadSeekCloser\<close>), and whether \<^verbatim>\<open>Close\<close> was called.
\<close>

record ReadSeeker =
  rs_data :: string
  rs_closer :: bool
  rs_closed :: bool

text \<open>A non-\<^verbatim>\<open>nil\<close> error is \<open>None\<close>: the resolver only tests \<^verbatim>\<open>err != nil\<close>.\<close>

type_synonym StatFunc = "string \<Rightarrow> FileInfo option"

type_synonym ReaderFunc = "string \<Rightarrow> ReadSeeker option"

text \<open>A \<^verbatim>\<open>*log.Logger\<close>, known by its prefix; \<^verbatim>\<open>nil\<close> is \<open>None\<close>.\<close>

type_synonym Logger = string

record StaticServer =
  stat :: StatFunc
  readerfn :: ReaderFunc
  errorHandlers :: handler_map
  logger :: "Logger option"

section \<open>Error handler table\<close>

definition defaultErrorHandlers :: "(int \<times> HandlerFunc) list" where
  "defaultErrorHandlers =
     [(StatusNotFound, Some (\<lambda>w r. http_Error w ''Not Found'' StatusNotFound)),
      (StatusInternalServerError,
         Some (\<lambda>w r. http_Error w ''Internal Server Error'' StatusInternalServerError))]"

text \<open>
  \<^verbatim>\<open>for code, def := range defaultErrorHandlers\<close>: one step of the loop, and the
  function. The loop runs over the keys of the default table only.
\<close>

definition setup_step ::
  "(int \<rightharpoonup> HandlerFunc) \<Rightarrow> (int \<rightharpoonup> HandlerFunc) \<Rightarrow> int \<times> HandlerFunc \<Rightarrow> (int \<rightharpoonup> HandlerFunc)" where
  "setup_step m ret cd =
     (case m (fst cd) of
        Some custom \<Rightarrow> ret(fst cd \<mapsto> custom)
      | None \<Rightarrow> ret(fst cd \<mapsto> snd cd))"

definition setupErrorHandlers :: "handler_map \<Rightarrow> handler_map" where
  "setupErrorHandlers m =
     (case m of
        None \<Rightarrow> Some (map_of defaultErrorHandlers)
      | Some t \<Rightarrow> Some (foldl (setup_step t) Map.empty defaultErrorHandlers))"

section \<open>Constructors\<close>

text \<open>\<^verbatim>\<open>vfs.FileSystem\<close>: the two methods the server uses.\<close>

record FileSystem =
  Lstat :: StatFunc
  Open :: ReaderFunc

definition VFSStaticServer :: "FileSystem \<Rightarrow> handler_map \<Rightarrow> Logger option \<Rightarrow> StaticServer" where
  "VFSStaticServer f eh lg =
     \<lparr>stat = Lstat f,
      readerfn = (\<lambda>name. Open f name),
      errorHandlers = setupErrorHandlers eh,
      logger = lg\<rparr>"

definition RawStaticServer ::
  "StatFunc \<Rightarrow> ReaderFunc \<Rightarrow> handler_map \<Rightarrow> Logger option \<Rightarrow> StaticServer" where
  "RawStaticServer st rd eh lg =
     \<lparr>stat = st, readerfn = rd, errorHandlers = eh, logger = lg\<rparr>"

text \<open>
  \<^verbatim>\<open>OSSS\<close> and \<^verbatim>\<open>ZipSS\<close> wrap \<^verbatim>\<open>vfs.OS(root)\<close> and \<^verbatim>\<open>zipfs.New(rc, name)\<close>, file
  systems of the godoc library, taken here as parameters.
\<close>

definition OSSS ::
  "(string \<Rightarrow> FileSystem) \<Rightarrow> string \<Rightarrow> handler_map \<Rightarrow> Logger option \<Rightarrow> StaticServer" where
  "OSSS vfs_OS root_dir eh lg = VFSStaticServer (vfs_OS root_dir) eh lg"

definition ZipSS ::
  "('rc \<Rightarrow> string \<Rightarrow> FileSystem) \<Rightarrow> 'rc \<Rightarrow> string \<Rightarrow> handler_map \<Rightarrow> Logger option \<Rightarrow> StaticServer" where
  "ZipSS zipfs_New rc name eh lg = VFSStaticServer (zipfs_New rc name) eh lg"

section \<open>The request resolver\<close>

text \<open>
  What one run of a handler does besides writing the response: the calls it makes to
  its collaborators, in order.
\<close>

datatype call =
    CallStat string
  | CallOpen string
  | CallHandler int
  | CallServeContent string int ReadSeeker
  | CallClose
  | CallError int
  | CallServeFile string

text \<open>
  The state threaded through a run: the response written so far, the calls made, the
  lines printed to the logger, whether the run panicked, and the reader \<^verbatim>\<open>rds\<close>
  once it is open.
\<close>

record run =
  resp :: response
  calls :: "call list"
  logged :: "string list"
  panicked :: bool
  reader :: "ReadSeeker option"

definition start :: "response \<Rightarrow> run" where
  "start w = \<lparr>resp = w, calls = [], logged = [], panicked = False, reader = None\<rparr>"

definition called :: "call \<Rightarrow> run \<Rightarrow> run" where
  "called c st = st\<lparr>calls := calls st @ [c]\<rparr>"

text \<open>\<^verbatim>\<open>if ss.logger != nil { ss.logger.Printf(format, reqpath) }\<close>.\<close>

definition logf :: "StaticServer \<Rightarrow> string \<Rightarrow> run \<Rightarrow> run" where
  "logf ss line st =
     (case logger ss of
        None \<Rightarrow> st
      | Some pfx \<Rightarrow> st\<lparr>logged := logged st @ [pfx @ line]\<rparr>)"

text \<open>
  \<^verbatim>\<open>ss.errorHandlers[code](w, r); return\<close>: the table is indexed and the entry
  called; a \<^verbatim>\<open>nil\<close> entry panics.
\<close>

definition call_handler :: "StaticServer \<Rightarrow> int \<Rightarrow> request \<Rightarrow> run \<Rightarrow> run" where
  "call_handler ss c r st =
     (case index_map (errorHandlers ss) c of
        None \<Rightarrow> (called (CallHandler c) st)\<lparr>panicked := True\<rparr>
      | Some h \<Rightarrow> (called (CallHandler c) st)\<lparr>resp := h (resp st) r\<rparr>)"

text \<open>
  \<^verbatim>\<open>http.ServeContent(w, r, name, modtime, content)\<close> is the content-serving
  primitive of the net/http library, a parameter of the resolver: it writes a
  response from the request, the name, the modification time and the reader.
\<close>

type_synonym ServeContentFunc =
  "response \<Rightarrow> request \<Rightarrow> string \<Rightarrow> int \<Rightarrow> ReadSeeker \<Rightarrow> response"

text \<open>
  The end of \<^verbatim>\<open>ServeHTTP\<close>, reached with a path that is not a directory: open the
  reader, serve, close.
\<close>

definition serve_asset ::
  "ServeContentFunc \<Rightarrow> StaticServer \<Rightarrow> request \<Rightarrow> string \<Rightarrow> FileInfo \<Rightarrow> run \<Rightarrow> run" where
  "serve_asset serveContent ss r reqpath info st0 =
     (let st1 = called (CallOpen reqpath) st0 in
      case readerfn ss reqpath of
        None \<Rightarrow>
          call_handler ss StatusInternalServerError r
            (logf ss (''StaticServer: Error obtaining a reader to requested path. '' @
                      ''Returning http.StatusInternalServerError:'' @ reqpath) st1)
      | Some rds \<Rightarrow>
          (let st2 = logf ss (''StaticServer: Calling ServeContent for:'' @ reqpath)
                       (st1\<lparr>reader := Some rds\<rparr>);
               st3 = (called (CallServeContent (Name info) (ModTime info) rds) st2)
                       \<lparr>resp := serveContent (resp st2) r (Name info) (ModTime info) rds\<rparr>
           in if rs_closer rds
              then (called CallClose st3)\<lparr>reader := Some (rds\<lparr>rs_closed := True\<rparr>)\<rparr>
              else st3))"

definition ServeHTTP ::
  "ServeContentFunc \<Rightarrow> StaticServer \<Rightarrow> response \<Rightarrow> request \<Rightarrow> run" where
  "ServeHTTP serveContent ss w r =
     (let st0 = logf ss (''StaticServer: Request for :'' @ url_path r) (start w);
          reqpath = Clean (''/'' @ url_path r);
          st1 = called (CallStat reqpath) st0
      in case stat ss reqpath of
           None \<Rightarrow>
             call_handler ss StatusNotFound r
               (logf ss (''StaticServer: Error finding requested path. '' @
                         ''Returning http.StatusNotFound:'' @ reqpath) st1)
         | Some info \<Rightarrow>
             if IsDir info then
               (let st2 = logf ss (''StaticServer: The requested path was a directory. '' @
                                   ''Trying to find index.html file in it:'' @ reqpath) st1;
                    reqpath' = Join [reqpath, ''index.html''];
                    st3 = called (CallStat reqpath') st2
                in case stat ss reqpath' of
                     None \<Rightarrow>
                       call_handler ss StatusNotFound r
                         (logf ss (''StaticServer: index.html was not found. '' @
                                   ''Returning http.StatusNotFound:'' @ reqpath') st3)
                   | Some info' \<Rightarrow>
                       if IsDir info' then
                         call_handler ss StatusNotFound r
                           (logf ss (''StaticServer: index.html is a folder. '' @
                                     ''Returning http.StatusNotFound:'' @ reqpath') st3)
                       else serve_asset serveContent ss r reqpath' info' st3)
             else serve_asset serveContent ss r reqpath info st1)"

text \<open>The calls of a run to the backend's open function, and to the serving primitives.\<close>

fun is_open :: "call \<Rightarrow> bool" where
  "is_open (CallOpen p) = True"
| "is_open c = False"

fun is_serve :: "call \<Rightarrow> bool" where
  "is_serve (CallServeContent n t rd) = True"
| "is_serve (CallServeFile p) = True"
| "is_serve c = False"

fun is_stat :: "call \<Rightarrow> bool" where
  "is_stat (CallStat p) = True"
| "is_stat c = False"

section \<open>The map backend\<close>

text \<open>
  Modelled from the spec: \<^verbatim>\<open>MapSS\<close> wraps \<^verbatim>\<open>mapfs.New(fs)\<close> of the godoc library,
  which is not part of the repository's sources; the spec calls it a ``path to
  content mapping'' whose keys are forward-slash paths without a leading separator.
  A path names a file when, its leading separator dropped, it is a key; it names a
  directory when its elements are a proper prefix of the elements of a key. The
  readers of this backend have a \<^verbatim>\<open>Close\<close> method.
\<close>

definition mapfs_filename :: "string \<Rightarrow> string" where
  "mapfs_filename p = (if p \<noteq> [] \<and> hd p = Separator then tl p else p)"

fun proper_prefix :: "'a list \<Rightarrow> 'a list \<Rightarrow> bool" where
  "proper_prefix [] ys = (ys \<noteq> [])"
| "proper_prefix (x # xs) [] = False"
| "proper_prefix (x # xs) (y # ys) = (x = y \<and> proper_prefix xs ys)"

definition path_Base :: "string \<Rightarrow> string" where
  "path_Base p =
     (if p = [] then ''.''
      else (let q = rev (dropWhile (\<lambda>x. x = Separator) (rev p));
                b = rev (takeWhile (\<lambda>x. x \<noteq> Separator) (rev q))
            in if b = [] then ''/'' else b))"

definition mapfs_isdir :: "(string \<times> string) list \<Rightarrow> string \<Rightarrow> bool" where
  "mapfs_isdir m p =
     (hd (Clean p) = Separator \<and>
      list_ex (\<lambda>kv. proper_prefix (path_elems (Clean p)) (path_elems (fst kv))) m)"

definition mapfs_Lstat :: "(string \<times> string) list \<Rightarrow> StatFunc" where
  "mapfs_Lstat m p =
     (case map_of m (mapfs_filename p) of
        Some b \<Rightarrow> Some \<lparr>Name = path_Base p, Size = int (length b), ModTime = 0, IsDir = False\<rparr>
      | None \<Rightarrow>
          if mapfs_isdir m p
          then Some \<lparr>Name = path_Base p, Size = 0, ModTime = 0, IsDir = True\<rparr>
          else None)"

definition mapfs_Open :: "(string \<times> string) list \<Rightarrow> ReaderFunc" where
  "mapfs_Open m p =
     (case map_of m (mapfs_filename p) of
        None \<Rightarrow> None
      | Some b \<Rightarrow> Some \<lparr>rs_data = b, rs_closer = True, rs_closed = False\<rparr>)"

definition mapfs_New :: "(string \<times> string) list \<Rightarrow> FileSystem" where
  "mapfs_New m = \<lparr>Lstat = mapfs_Lstat m, Open = mapfs_Open m\<rparr>"

definition MapSS :: "(string \<times> string) list \<Rightarrow> handler_map \<Rightarrow> Logger option \<Rightarrow> StaticServer" where
  "MapSS fs eh lg = VFSStaticServer (mapfs_New fs) eh lg"

text \<open>
  Modelled from the spec: the content-serving primitive on a request without range
  or conditional headers answers ``200'' with the whole content (the headers it sets
  are left out).
\<close>

definition ServeContent_plain :: ServeContentFunc where
  "ServeContent_plain w r name modtime rd = w\<lparr>code := 200, body := body w @ rs_data rd\<rparr>"

section \<open>The second variant: a server on a root directory\<close>

text \<open>
  The second \<^verbatim>\<open>StaticServer\<close> of the sources holds a root directory and reads the
  operating system's files: \<^verbatim>\<open>os.Lstat\<close> (here \<open>lstat\<close>, an error being its message)
  and \<^verbatim>\<open>http.ServeFile\<close> (here \<open>serveFile\<close>) are parameters. It has no table of
  error handlers and logs to the standard logger.
\<close>

record StaticServer2 =
  root :: string

type_synonym LstatFunc = "string \<Rightarrow> string + FileInfo"

definition NewStaticServer :: "LstatFunc \<Rightarrow> string \<Rightarrow> string + StaticServer2" where
  "NewStaticServer lstat path =
     (case lstat path of
        Inl err \<Rightarrow> Inl (''Error: NewStaticServer: Error in statting '' @ path @ '':'' @ err)
      | Inr fi \<Rightarrow>
          if \<not> IsDir fi
          then Inl (''Error: NewStaticServer: Root path '' @ path @ '' is not a a folder'')
          else Inr \<lparr>root = path\<rparr>)"

definition defaultfiles :: "string list" where
  "defaultfiles = [''index.html'', ''index.htm'']"

text \<open>
  \<^verbatim>\<open>for _, filename := range defaultfiles\<close>: the first default file that stats, and
  the stat calls made; \<^verbatim>\<open>found\<close> stays empty when none does.
\<close>

fun find_default :: "LstatFunc \<Rightarrow> string \<Rightarrow> string list \<Rightarrow> string \<times> call list" where
  "find_default lstat reqpath [] = ([], [])"
| "find_default lstat reqpath (filename # rest) =
     (let temppath = Join [reqpath, filename] in
      case lstat temppath of
        Inr fi \<Rightarrow> (temppath, [CallStat temppath])
      | Inl err \<Rightarrow>
          (let res = find_default lstat reqpath rest
           in (fst res, CallStat temppath # snd res)))"

definition bad_request :: "string \<Rightarrow> run \<Rightarrow> run" where
  "bad_request line st =
     (called (CallError StatusBadRequest) st)
       \<lparr>resp := http_Error (resp st) ''Bad Request'' StatusBadRequest,
        logged := logged st @ [line]\<rparr>"

definition serve_file :: "(response \<Rightarrow> request \<Rightarrow> string \<Rightarrow> response) \<Rightarrow> request \<Rightarrow> string \<Rightarrow> run \<Rightarrow> run" where
  "serve_file serveFile r reqpath st =
     (called (CallServeFile reqpath) st)\<lparr>resp := serveFile (resp st) r reqpath\<rparr>"

definition ServeHTTP2 ::
  "LstatFunc \<Rightarrow> (response \<Rightarrow> request \<Rightarrow> string \<Rightarrow> response) \<Rightarrow>
     StaticServer2 \<Rightarrow> response \<Rightarrow> request \<Rightarrow> run" where
  "ServeHTTP2 lstat serveFile fs w r =
     (let reqpath = Join [root fs, Clean (''/'' @ url_path r)];
          st1 = called (CallStat reqpath) (start w)
      in case lstat reqpath of
           Inl err \<Rightarrow>
             bad_request (''StaticServer: Error finding resource '' @ reqpath @ '' : '' @ err) st1
         | Inr fi \<Rightarrow>
             if IsDir fi then
               (let res = find_default lstat reqpath defaultfiles;
                    st2 = st1\<lparr>calls := calls st1 @ snd res\<rparr>
                in if fst res = []
                   then bad_request
                          (''Error: StaticServer: could not find default file in at '' @ reqpath) st2
                   else serve_file serveFile r (fst res) st2)
             else serve_file serveFile r reqpath st1)"

section \<open>Resolution and outcomes\<close>

text \<open>
  The asset a request resolves to, in the spec's words (steps 1 to 3 of its
  algorithm): the cleaned path when it stats as a file; when it stats as a
  directory, the path with \<^verbatim>\<open>index.html\<close> appended when that stats as a file; nothing
  otherwise. The theorems compare \<open>ServeHTTP\<close> with it.
\<close>

definition resolve :: "StaticServer \<Rightarrow> request \<Rightarrow> (string \<times> FileInfo) option" where
  "resolve ss r =
     (let c = Clean (''/'' @ url_path r) in
      case stat ss c of
        None \<Rightarrow> None
      | Some info \<Rightarrow>
          if IsDir info then
            (case stat ss (Join [c, ''index.html'']) of
               None \<Rightarrow> None
             | Some info' \<Rightarrow> if IsDir info' then None else Some (Join [c, ''index.html''], info'))
          else Some (c, info))"

text \<open>The stat calls on the way to the resolution, and what calling a handler writes.\<close>

definition stat_calls :: "StaticServer \<Rightarrow> request \<Rightarrow> call list" where
  "stat_calls ss r =
     (let c = Clean (''/'' @ url_path r) in
      case stat ss c of
        None \<Rightarrow> [CallStat c]
      | Some info \<Rightarrow>
          if IsDir info then [CallStat c, CallStat (Join [c, ''index.html''])]
          else [CallStat c])"

definition handled :: "StaticServer \<Rightarrow> int \<Rightarrow> response \<Rightarrow> request \<Rightarrow> response" where
  "handled ss c w r =
     (case index_map (errorHandlers ss) c of None \<Rightarrow> w | Some h \<Rightarrow> h w r)"

text \<open>The status codes whose handlers a run called, in order.\<close>

fun handler_code :: "call \<Rightarrow> int list" where
  "handler_code (CallHandler c) = [c]"
| "handler_code c = []"

definition handler_codes :: "call list \<Rightarrow> int list" where
  "handler_codes cs = concat (map handler_code cs)"

section \<open>Example requests and backends\<close>

text \<open>\<^verbatim>\<open>http.NewRequest("GET", url, ...)\<close> for a URL with path \<open>p\<close>, without headers.\<close>

definition plain_get :: "string \<Rightarrow> request" where
  "plain_get p = \<lparr>req_method = ''GET'', url_path = p, req_header = Map.empty\<rparr>"

definition file_info :: "string \<Rightarrow> FileInfo" where
  "file_info n = \<lparr>Name = n, Size = 0, ModTime = 0, IsDir = False\<rparr>"

definition dir_info :: "string \<Rightarrow> FileInfo" where
  "dir_info n = \<lparr>Name = n, Size = 0, ModTime = 0, IsDir = True\<rparr>"

text \<open>The backend map of the test \<^verbatim>\<open>TestIndex\<close>.\<close>

definition testmap :: "(string \<times> string) list" where
  "testmap = [(''index.html'', ''root index file''), (''sub/index.html'', ''sub index file'')]"

text \<open>
  A file system in which \<^verbatim>\<open>public\<close> is a directory with a file \<^verbatim>\<open>index.html\<close>, and
  one in which every path is a directory.
\<close>

definition lstat_public :: LstatFunc where
  "lstat_public p =
     (if p = ''./public'' \<or> p = ''public'' then Inr (dir_info ''public'')
      else if p = ''public/index.html'' then Inr (file_info ''index.html'')
      else Inl ''no such file or directory'')"

definition lstat_dirs :: LstatFunc where
  "lstat_dirs p = Inr (dir_info (path_Base p))"

definition lstat_none :: LstatFunc where
  "lstat_none p = Inl ''no such file or directory''"

text \<open>A stand-in for \<^verbatim>\<open>http.ServeFile\<close> that answers with the name of the file.\<close>

definition ServeFile_name :: "response \<Rightarrow> request \<Rightarrow> string \<Rightarrow> response" where
  "ServeFile_name w r name = w\<lparr>body := body w @ name\<rparr>"

text \<open>
  Raw backends: one in which every path but \<^verbatim>\<open>/index.html\<close> is a directory and
  no reader can be opened, one without any path, and the one of the test
  \<^verbatim>\<open>TestClose\<close>, a single file behind every path whose reader has a \<^verbatim>\<open>Close\<close> method.
\<close>

definition stat_index :: StatFunc where
  "stat_index p = (if p = ''/index.html'' then Some (file_info ''index.html'')
                   else Some (dir_info (path_Base p)))"

definition open_fails :: ReaderFunc where
  "open_fails p = None"

definition stat_fails :: StatFunc where
  "stat_fails p = None"

definition memfile_stat :: StatFunc where
  "memfile_stat p = Some (file_info ''test.txt'')"

definition memfile_Open :: ReaderFunc where
  "memfile_Open p = Some \<lparr>rs_data = ''this is a test file.'', rs_closer = True, rs_closed = False\<rparr>"

text \<open>The handler of the test \<^verbatim>\<open>TestErrorHandlers\<close>.\<close>

definition notfound :: "response \<Rightarrow> request \<Rightarrow> response" where
  "notfound w r = w\<lparr>code := StatusNotFound, body := body w @ ''Custom Not Found Handler''\<rparr>"

section \<open>Properties of path cleaning\<close>

text \<open>
  The main loop keeps the invariant \<open>clean_inv\<close>; reading up to a separator and
  then the rest is reading the whole (\<open>clean_loop_append_sep\<close>); real elements are
  appended as they are (\<open>clean_loop_elems\<close>). From these: the cleaned form of a
  rooted path (\<open>Clean_rooted\<close>) and of a root joined with one
  (\<open>Join_root_render\<close>).
\<close>

lemma strings_Join_Cons:
  "strings_Join (x # xs) sep = x @ (if xs = [] then [] else sep @ strings_Join xs sep)"
  by (cases xs) auto

lemma strings_Join_append:
  "strings_Join (xs @ ys) sep =
     strings_Join xs sep @ (if xs \<noteq> [] \<and> ys \<noteq> [] then sep else []) @ strings_Join ys sep"
  by (induction xs) (auto simp: strings_Join_Cons)

lemma strings_Join_eq_Nil:
  "[] \<notin> set xs \<Longrightarrow> strings_Join xs sep = [] \<longleftrightarrow> xs = []"
  by (cases xs) (auto simp: strings_Join_Cons)

lemma backtrack_stop:
  "w \<le> dotdot \<or> buf ! w = Separator \<Longrightarrow> backtrack buf dotdot w = w"
  by (subst backtrack.simps) auto

lemma backtrack_elem:
  assumes "Separator \<notin> set s" "k < length s"
    and "length pre = dotdot \<or> (dotdot < length pre \<and> last pre = Separator)"
  shows "backtrack (pre @ s) dotdot (length pre + k) =
           (if length pre = dotdot then dotdot else length pre - 1)"
  using assms(2)
proof (induction k)
  case 0
  have s0: "(pre @ s) ! length pre \<noteq> Separator"
    using assms(1) 0 by (metis nth_append_length_plus add.right_neutral nth_mem)
  show ?case
  proof (cases "length pre = dotdot")
    case True
    then show ?thesis by (simp add: backtrack_stop)
  next
    case False
    with assms(3) have gt: "dotdot < length pre" and l: "last pre = Separator" by auto
    then have "pre \<noteq> []" by auto
    then have "(pre @ s) ! (length pre - 1) = Separator"
      using l by (simp add: nth_append last_conv_nth)
    then have "backtrack (pre @ s) dotdot (length pre - 1) = length pre - 1"
      by (simp add: backtrack_stop)
    with s0 gt False show ?thesis
      by (subst backtrack.simps) simp
  qed
next
  case (Suc k)
  then have k: "k < length s" by simp
  have "(pre @ s) ! (length pre + Suc k) = s ! Suc k" by (simp add: nth_append)
  with assms(1) Suc.prems have ne: "(pre @ s) ! (length pre + Suc k) \<noteq> Separator"
    by (metis nth_mem)
  have gt: "length pre + Suc k > dotdot" using assms(3) by auto
  show ?case
    using ne gt Suc.IH[OF k] by (subst backtrack.simps) simp
qed


lemma name_elem_dotdot_list: "[] \<notin> set (replicate n ''..'' @ elems)" if "list_all name_elem elems"
  using that by (auto simp: list_all_iff name_elem_def)

lemma render_length_mono:
  assumes "list_all name_elem elems" "elems \<noteq> []"
  shows "length (render rooted xs) < length (render rooted (xs @ elems))"
proof -
  have "strings_Join elems [Separator] \<noteq> []"
    using assms by (subst strings_Join_eq_Nil) (auto simp: list_all_iff name_elem_def)
  then show ?thesis
    by (simp add: render_def strings_Join_append)
qed

lemma clean_inv_init: "clean_inv True [Separator] 1" "clean_inv False [] 0"
  unfolding clean_inv_def
  by (rule exI[of _ 0], rule exI[of _ "[]"], simp add: render_def)+

lemma clean_inv_backtrack:
  assumes "clean_inv rooted out dotdot" "length out > dotdot"
  shows "clean_inv rooted (take (backtrack out dotdot (length out - 1)) out) dotdot"
proof -
  from assms(1) obtain n elems where el: "list_all name_elem elems" and r: "rooted \<longrightarrow> n = 0"
    and out: "out = render rooted (replicate n ''..'' @ elems)"
    and dd: "dotdot = length (render rooted (replicate n ''..''))"
    unfolding clean_inv_def by blast
  have "elems \<noteq> []" using assms(2) out dd by auto
  then obtain es s where elems: "elems = es @ [s]" by (metis rev_exhaust)
  with el have s: "s \<noteq> []" "Separator \<notin> set s" and es: "list_all name_elem es"
    by (auto simp: name_elem_def)
  let ?xs = "replicate n ''..'' @ es"
  let ?pre = "render rooted ?xs @ (if ?xs = [] then [] else [Separator])"
  have out': "out = ?pre @ s"
    using out elems by (simp add: render_def strings_Join_append)
  have ddle: "dotdot \<le> length (render rooted ?xs)"
    unfolding dd by (simp add: render_def strings_Join_append)
  have stop: "length ?pre = dotdot \<or> (dotdot < length ?pre \<and> last ?pre = Separator)"
  proof (cases "?xs = []")
    case True
    then show ?thesis using dd by simp
  next
    case False
    then show ?thesis using ddle by auto
  qed
  have k: "length s - 1 < length s" using s by simp
  have "length out = length ?pre + length s"
    by (subst out') (simp only: length_append)
  moreover have "1 \<le> length s" using s(1) by (cases s) auto
  ultimately have w: "length out - 1 = length ?pre + (length s - 1)"
    by linarith
  have "backtrack out dotdot (length out - 1) = (if length ?pre = dotdot then dotdot else length ?pre - 1)"
    unfolding w by (subst out') (rule backtrack_elem[OF s(2) k stop])
  also have "\<dots> = length (render rooted ?xs)"
  proof (cases "?xs = []")
    case True
    then show ?thesis using dd by simp
  next
    case False
    then show ?thesis using ddle by auto
  qed
  finally have "take (backtrack out dotdot (length out - 1)) out = render rooted ?xs"
    by (subst (2) out') simp
  with es r dd show ?thesis unfolding clean_inv_def by blast
qed

lemma clean_inv_dotdot:
  assumes "clean_inv False out dotdot" "\<not> length out > dotdot"
    and "out' = (if length out > 0 then out @ [Separator] else out) @ ''..''"
  shows "clean_inv False out' (length out')"
proof -
  from assms(1) obtain n elems where el: "list_all name_elem elems"
    and out: "out = render False (replicate n ''..'' @ elems)"
    and dd: "dotdot = length (render False (replicate n ''..''))"
    unfolding clean_inv_def by blast
  have "elems = []"
    using render_length_mono[OF el, of False "replicate n ''..''"] assms(2) out dd by auto
  with out have out: "out = render False (replicate n ''..'')" by simp
  have emp: "strings_Join (replicate n ''..'') [Separator] = [] \<longleftrightarrow> n = 0"
    by (subst strings_Join_eq_Nil) auto
  have "render False (replicate (Suc n) ''..'') =
          render False (replicate n ''..'' @ [''..''])"
    by (simp add: replicate_append_same)
  also have "\<dots> = out'"
    unfolding assms(3) out using emp
    by (simp add: render_def strings_Join_append)
  finally have "render False (replicate (Suc n) ''..'') = out'" .
  then show ?thesis
    unfolding clean_inv_def
    by (intro exI[of _ "Suc n"] exI[of _ "[]"]) simp
qed

lemma clean_inv_elem:
  assumes "clean_inv rooted out dotdot" "name_elem s"
  shows "clean_inv rooted
           ((if rooted \<and> length out \<noteq> 1 \<or> \<not> rooted \<and> length out \<noteq> 0
             then out @ [Separator] else out) @ s) dotdot"
proof -
  from assms(1) obtain n elems where el: "list_all name_elem elems" and r: "rooted \<longrightarrow> n = 0"
    and out: "out = render rooted (replicate n ''..'' @ elems)"
    and dd: "dotdot = length (render rooted (replicate n ''..''))"
    unfolding clean_inv_def by blast
  let ?xs = "replicate n ''..'' @ elems"
  have emp: "strings_Join ?xs [Separator] = [] \<longleftrightarrow> ?xs = []"
    by (rule strings_Join_eq_Nil) (rule name_elem_dotdot_list[OF el])
  have "(if rooted \<and> length out \<noteq> 1 \<or> \<not> rooted \<and> length out \<noteq> 0
             then out @ [Separator] else out) @ s = render rooted (?xs @ [s])"
  proof (cases "?xs = []")
    case True
    then show ?thesis using out by (simp add: render_def)
  next
    case False
    with emp have "strings_Join ?xs [Separator] \<noteq> []" by blast
    then show ?thesis using out False by (auto simp: render_def strings_Join_append)
  qed
  moreover have "list_all name_elem (elems @ [s])" using el assms(2) by simp
  ultimately show ?thesis
    unfolding clean_inv_def using r dd
    by (intro exI[of _ n] exI[of _ "elems @ [s]"]) simp
qed


lemma name_elem_default:
  assumes "c \<noteq> Separator"
    and "\<not> (c = CHR ''.'' \<and> (cs = [] \<or> hd cs = Separator))"
    and "\<not> (c = CHR ''.'' \<and> hd cs = CHR ''.'' \<and> (tl cs = [] \<or> hd (tl cs) = Separator))"
  shows "name_elem (c # takeWhile (\<lambda>x. x \<noteq> Separator) cs)"
proof -
  have "Separator \<notin> set (c # takeWhile (\<lambda>x. x \<noteq> Separator) cs)"
    using assms(1) by (auto dest: set_takeWhileD)
  moreover have "c # takeWhile (\<lambda>x. x \<noteq> Separator) cs \<noteq> ''.''"
    using assms(2) by (cases cs) auto
  moreover have "c # takeWhile (\<lambda>x. x \<noteq> Separator) cs \<noteq> ''..''"
  proof (cases cs)
    case Nil
    then show ?thesis by simp
  next
    case (Cons d ds)
    then show ?thesis using assms(3) by (cases ds) (auto split: if_splits)
  qed
  ultimately show ?thesis by (simp add: name_elem_def)
qed


lemma clean_loop_sep:
  "clean_loop rooted (Separator # cs) out dotdot = clean_loop rooted cs out dotdot"
  by (subst clean_loop.simps(2)) simp

lemma clean_loop_dot:
  assumes "c \<noteq> Separator" "c = CHR ''.'' \<and> (cs = [] \<or> hd cs = Separator)"
  shows "clean_loop rooted (c # cs) out dotdot = clean_loop rooted cs out dotdot"
  using assms by (subst clean_loop.simps(2)) auto

lemma clean_loop_dotdot:
  assumes "c \<noteq> Separator" "\<not> (c = CHR ''.'' \<and> (cs = [] \<or> hd cs = Separator))"
    and "c = CHR ''.'' \<and> hd cs = CHR ''.'' \<and> (tl cs = [] \<or> hd (tl cs) = Separator)"
  shows "clean_loop rooted (c # cs) out dotdot =
     (if length out > dotdot then
        clean_loop rooted (tl cs) (take (backtrack out dotdot (length out - 1)) out) dotdot
      else if \<not> rooted then
        (let out' = (if length out > 0 then out @ [Separator] else out) @ ''..''
         in clean_loop rooted (tl cs) out' (length out'))
      else clean_loop rooted (tl cs) out dotdot)"
  using assms by (subst clean_loop.simps(2)) auto

lemma clean_loop_elem:
  assumes "c \<noteq> Separator" "\<not> (c = CHR ''.'' \<and> (cs = [] \<or> hd cs = Separator))"
    and "\<not> (c = CHR ''.'' \<and> hd cs = CHR ''.'' \<and> (tl cs = [] \<or> hd (tl cs) = Separator))"
  shows "clean_loop rooted (c # cs) out dotdot =
     clean_loop rooted (dropWhile (\<lambda>x. x \<noteq> Separator) cs)
       ((if rooted \<and> length out \<noteq> 1 \<or> \<not> rooted \<and> length out \<noteq> 0
         then out @ [Separator] else out) @ c # takeWhile (\<lambda>x. x \<noteq> Separator) cs) dotdot"
  using assms by (subst clean_loop.simps(2)) (auto simp: Let_def)

lemma clean_loop_inv:
  "clean_inv rooted out dotdot \<Longrightarrow>
   clean_inv rooted (fst (clean_loop rooted rest out dotdot)) (snd (clean_loop rooted rest out dotdot))"
proof (induction rooted rest out dotdot rule: clean_loop.induct)
  case (1 rooted out dotdot)
  then show ?case by simp
next
  case (2 rooted c cs out dotdot)
  note inv = "2.prems"
  consider (sep) "c = Separator"
    | (dot) "c \<noteq> Separator" "c = CHR ''.'' \<and> (cs = [] \<or> hd cs = Separator)"
    | (dotdot) "c \<noteq> Separator" "\<not> (c = CHR ''.'' \<and> (cs = [] \<or> hd cs = Separator))"
        "c = CHR ''.'' \<and> hd cs = CHR ''.'' \<and> (tl cs = [] \<or> hd (tl cs) = Separator)"
    | (elem) "c \<noteq> Separator" "\<not> (c = CHR ''.'' \<and> (cs = [] \<or> hd cs = Separator))"
        "\<not> (c = CHR ''.'' \<and> hd cs = CHR ''.'' \<and> (tl cs = [] \<or> hd (tl cs) = Separator))"
    by blast
  then show ?case
  proof cases
    case sep
    then show ?thesis using "2.IH"(1) inv by (simp add: clean_loop_sep)
  next
    case dot
    show ?thesis
      unfolding clean_loop_dot[OF dot] by (rule "2.IH"(2)[OF dot inv])
  next
    case dotdot
    show ?thesis
    proof (cases "length out > dotdot")
      case True
      show ?thesis
        unfolding clean_loop_dotdot[OF dotdot] using True
          "2.IH"(3)[OF dotdot(1,2,3) True clean_inv_backtrack[OF inv True]]
        by simp
    next
      case False
      show ?thesis
      proof (cases rooted)
        case True
        show ?thesis
          unfolding clean_loop_dotdot[OF dotdot]
          using True False "2.IH"(5)[OF dotdot(1,2,3) False _ inv] by simp
      next
        case nr: False
        define out' where "out' = (if length out > 0 then out @ [Separator] else out) @ ''..''"
        have "clean_inv rooted out' (length out')"
          using clean_inv_dotdot[OF _ False out'_def] inv nr by simp
        from "2.IH"(4)[OF dotdot(1,2,3) False nr out'_def this]
        show ?thesis
          unfolding clean_loop_dotdot[OF dotdot] out'_def Let_def using nr False by simp
      qed
    qed
  next
    case elem
    define out' where "out' = (if rooted \<and> length out \<noteq> 1 \<or> \<not> rooted \<and> length out \<noteq> 0
                     then out @ [Separator] else out)"
    have "clean_inv rooted (out' @ c # takeWhile (\<lambda>x. x \<noteq> Separator) cs) dotdot"
      unfolding out'_def by (rule clean_inv_elem[OF inv name_elem_default[OF elem]])
    from "2.IH"(6)[OF elem out'_def this]
    show ?thesis
      unfolding clean_loop_elem[OF elem] out'_def .
  qed
qed


lemma takeWhile_append_sep:
  "takeWhile (\<lambda>x. x \<noteq> s) (cs @ s # ys) = takeWhile (\<lambda>x. x \<noteq> s) cs"
  by (induction cs) auto

lemma dropWhile_append_sep:
  "dropWhile (\<lambda>x. x \<noteq> s) (cs @ s # ys) = dropWhile (\<lambda>x. x \<noteq> s) cs @ s # ys"
  by (induction cs) auto

lemma clean_loop_append_sep:
  "clean_loop rooted (xs @ Separator # ys) out dotdot =
     clean_loop rooted ys (fst (clean_loop rooted xs out dotdot))
       (snd (clean_loop rooted xs out dotdot))"
proof (induction rooted xs out dotdot rule: clean_loop.induct)
  case (1 rooted out dotdot)
  then show ?case by (simp add: clean_loop_sep)
next
  case (2 rooted c cs out dotdot)
  let ?cs' = "cs @ Separator # ys"
  consider (sep) "c = Separator"
    | (dot) "c \<noteq> Separator" "c = CHR ''.'' \<and> (cs = [] \<or> hd cs = Separator)"
    | (dotdot) "c \<noteq> Separator" "\<not> (c = CHR ''.'' \<and> (cs = [] \<or> hd cs = Separator))"
        "c = CHR ''.'' \<and> hd cs = CHR ''.'' \<and> (tl cs = [] \<or> hd (tl cs) = Separator)"
    | (elem) "c \<noteq> Separator" "\<not> (c = CHR ''.'' \<and> (cs = [] \<or> hd cs = Separator))"
        "\<not> (c = CHR ''.'' \<and> hd cs = CHR ''.'' \<and> (tl cs = [] \<or> hd (tl cs) = Separator))"
    by blast
  then show ?case
  proof cases
    case sep
    then show ?thesis using "2.IH"(1) by (simp add: clean_loop_sep)
  next
    case dot
    have dot': "c = CHR ''.'' \<and> (?cs' = [] \<or> hd ?cs' = Separator)"
      using dot(2) by (cases cs) auto
    show ?thesis
      using "2.IH"(2)[OF dot]
      unfolding append_Cons clean_loop_dot[OF dot] clean_loop_dot[OF dot(1) dot'] .
  next
    case dotdot
    from dotdot have ne: "cs \<noteq> []" by auto
    then have tl: "tl ?cs' = tl cs @ Separator # ys" by simp
    have c2: "\<not> (c = CHR ''.'' \<and> (?cs' = [] \<or> hd ?cs' = Separator))"
      using dotdot(2) ne by (cases cs) auto
    have c3: "c = CHR ''.'' \<and> hd ?cs' = CHR ''.'' \<and> (tl ?cs' = [] \<or> hd (tl ?cs') = Separator)"
      using dotdot(3) ne unfolding tl by (cases cs; cases "tl cs") auto
    show ?thesis
    proof (cases "length out > dotdot")
      case True
      show ?thesis
        using "2.IH"(3)[OF dotdot True] True
        unfolding append_Cons clean_loop_dotdot[OF dotdot] clean_loop_dotdot[OF dotdot(1) c2 c3] tl
        by simp
    next
      case False
      show ?thesis
      proof (cases rooted)
        case True
        show ?thesis
          using "2.IH"(5)[OF dotdot False] True False
          unfolding append_Cons clean_loop_dotdot[OF dotdot] clean_loop_dotdot[OF dotdot(1) c2 c3] tl
          by simp
      next
        case nr: False
        show ?thesis
          using "2.IH"(4)[OF dotdot False nr refl] nr False
          unfolding append_Cons clean_loop_dotdot[OF dotdot] clean_loop_dotdot[OF dotdot(1) c2 c3] tl
          by (simp add: Let_def)
      qed
    qed
  next
    case elem
    have c2: "\<not> (c = CHR ''.'' \<and> (?cs' = [] \<or> hd ?cs' = Separator))"
      using elem(2) by (cases cs) auto
    have c3: "\<not> (c = CHR ''.'' \<and> hd ?cs' = CHR ''.'' \<and> (tl ?cs' = [] \<or> hd (tl ?cs') = Separator))"
      using elem(2,3) by (cases cs; cases "tl cs") auto
    show ?thesis
      using "2.IH"(6)[OF elem refl]
      unfolding append_Cons clean_loop_elem[OF elem] clean_loop_elem[OF elem(1) c2 c3]
        takeWhile_append_sep dropWhile_append_sep .
  qed
qed





lemma split_path_elem:
  "Separator \<notin> set s \<Longrightarrow> split_path (s @ Separator # rest) = s # split_path rest"
  by (induction s) auto

lemma split_path_last: "Separator \<notin> set s \<Longrightarrow> split_path s = [s]"
  by (induction s) auto

lemma path_elems_strings_Join:
  assumes "list_all name_elem elems"
  shows "path_elems (strings_Join elems [Separator]) = elems"
  using assms
proof (induction elems)
  case Nil
  then show ?case by (simp add: path_elems_def)
next
  case (Cons e es)
  then have e: "e \<noteq> []" "Separator \<notin> set e" and IH: "path_elems (strings_Join es [Separator]) = es"
    by (auto simp: name_elem_def)
  show ?case
  proof (cases "es = []")
    case True
    then show ?thesis using e by (simp add: path_elems_def split_path_last)
  next
    case False
    then show ?thesis using e IH
      by (simp add: strings_Join_Cons path_elems_def split_path_elem)
  qed
qed

lemma path_elems_render:
  "list_all name_elem elems \<Longrightarrow> path_elems (render rooted elems) = elems"
  using path_elems_strings_Join[of elems]
  by (cases rooted) (auto simp: render_def path_elems_def)

lemma clean_loop_name_elem:
  assumes "name_elem s"
  shows "clean_loop rooted s out dotdot =
     ((if rooted \<and> length out \<noteq> 1 \<or> \<not> rooted \<and> length out \<noteq> 0
       then out @ [Separator] else out) @ s, dotdot)"
proof -
  from assms obtain c cs where s: "s = c # cs" by (cases s) (auto simp: name_elem_def)
  with assms have c: "c \<noteq> Separator" and cs: "Separator \<notin> set cs"
    and nd: "c # cs \<noteq> ''.''" and ndd: "c # cs \<noteq> ''..''"
    by (auto simp: name_elem_def)
  have c2: "\<not> (c = CHR ''.'' \<and> (cs = [] \<or> hd cs = Separator))"
    using nd cs by (cases cs) auto
  have c3: "\<not> (c = CHR ''.'' \<and> hd cs = CHR ''.'' \<and> (tl cs = [] \<or> hd (tl cs) = Separator))"
    using nd ndd cs by (cases cs; cases "tl cs") auto
  have tw: "takeWhile (\<lambda>x. x \<noteq> Separator) cs = cs" "dropWhile (\<lambda>x. x \<noteq> Separator) cs = []"
    using cs by (auto simp: takeWhile_eq_all_conv)
  show ?thesis
    unfolding s clean_loop_elem[OF c c2 c3] tw by simp
qed

lemma clean_loop_elems:
  assumes "list_all name_elem elems" "rooted \<longrightarrow> length out \<ge> 1"
  shows "clean_loop rooted (strings_Join elems [Separator]) out dotdot =
     (out @ (if elems = [] then []
             else (if rooted \<and> length out \<noteq> 1 \<or> \<not> rooted \<and> length out \<noteq> 0
                   then [Separator] else []) @ strings_Join elems [Separator]), dotdot)"
  using assms
proof (induction elems arbitrary: out)
  case Nil
  then show ?case by simp
next
  case (Cons e es)
  then have e: "name_elem e" and es: "list_all name_elem es" by auto
  then have ene: "e \<noteq> []" by (simp add: name_elem_def)
  let ?out' = "(if rooted \<and> length out \<noteq> 1 \<or> \<not> rooted \<and> length out \<noteq> 0
                then out @ [Separator] else out) @ e"
  show ?case
  proof (cases "es = []")
    case True
    then show ?thesis by (simp add: clean_loop_name_elem[OF e])
  next
    case False
    have len: "rooted \<longrightarrow> length ?out' \<ge> 1" using ene by (cases e) auto
    have sepn: "rooted \<and> length ?out' \<noteq> 1 \<or> \<not> rooted \<and> length ?out' \<noteq> 0"
      using ene Cons.prems(2) by (cases e) auto
    have "clean_loop rooted (strings_Join (e # es) [Separator]) out dotdot =
            clean_loop rooted (strings_Join es [Separator]) ?out' dotdot"
      using False
      by (simp add: strings_Join_Cons clean_loop_append_sep clean_loop_name_elem[OF e])
    also have "\<dots> = (?out' @ [Separator] @ strings_Join es [Separator], dotdot)"
      unfolding Cons.IH[OF es len] using False sepn by simp
    finally show ?thesis using False by (simp add: strings_Join_Cons)
  qed
qed

lemma name_elem_hd: "name_elem x \<Longrightarrow> x \<noteq> [] \<and> x \<noteq> ''.'' \<and> hd x \<noteq> Separator"
  by (cases x) (auto simp: name_elem_def)

lemma strings_Join_hd:
  assumes "\<And>x. x \<in> set xs \<Longrightarrow> x \<noteq> [] \<and> x \<noteq> ''.'' \<and> hd x \<noteq> Separator"
  shows "strings_Join xs [Separator] \<noteq> ''.''"
    and "xs \<noteq> [] \<Longrightarrow> hd (strings_Join xs [Separator]) \<noteq> Separator"
proof -
  show "strings_Join xs [Separator] \<noteq> ''.''"
  proof (cases xs)
    case Nil
    then show ?thesis by simp
  next
    case (Cons x xs')
    with assms have "x \<noteq> []" "x \<noteq> ''.''" by auto
    then have "x @ ys \<noteq> ''.''" for ys by (cases x) auto
    then show ?thesis unfolding Cons by (simp add: strings_Join_Cons)
  qed
  show "hd (strings_Join xs [Separator]) \<noteq> Separator" if "xs \<noteq> []"
  proof (cases xs)
    case Nil
    with that show ?thesis by simp
  next
    case (Cons x xs')
    with assms have "x \<noteq> []" "hd x \<noteq> Separator" by auto
    then show ?thesis unfolding Cons by (simp add: strings_Join_Cons)
  qed
qed

lemma clean_inv_facts:
  assumes "clean_inv rooted out dotdot"
  shows "out \<noteq> ''.''" "rooted \<Longrightarrow> out \<noteq> [] \<and> hd out = Separator"
    "\<not> rooted \<Longrightarrow> out \<noteq> [] \<Longrightarrow> hd out \<noteq> Separator"
    "rooted \<Longrightarrow> \<exists>elems. list_all name_elem elems \<and> out = render True elems"
proof -
  from assms obtain n elems where el: "list_all name_elem elems" and r: "rooted \<longrightarrow> n = 0"
    and out0: "out = render rooted (replicate n ''..'' @ elems)"
    unfolding clean_inv_def by blast
  define xs where "xs = replicate n ''..'' @ elems"
  have out: "out = render rooted xs" using out0 xs_def by simp
  have xs: "x \<noteq> [] \<and> x \<noteq> ''.'' \<and> hd x \<noteq> Separator" if "x \<in> set xs" for x
  proof (cases "x \<in> set elems")
    case True
    with el have "name_elem x" by (simp add: list_all_iff)
    then show ?thesis by (rule name_elem_hd)
  next
    case False
    with that have "x = ''..''" by (auto simp: xs_def)
    then show ?thesis by simp
  qed
  have sj1: "strings_Join xs [Separator] \<noteq> ''.''"
    by (rule strings_Join_hd(1)) (rule xs)
  have sj2: "xs \<noteq> [] \<Longrightarrow> hd (strings_Join xs [Separator]) \<noteq> Separator"
    by (rule strings_Join_hd(2)) (rule xs)
  show "out \<noteq> ''.''"
    using sj1 out by (cases rooted) (simp_all add: render_def)
  show "rooted \<Longrightarrow> out \<noteq> [] \<and> hd out = Separator"
    using out by (simp add: render_def)
  show "hd out \<noteq> Separator" if "\<not> rooted" "out \<noteq> []"
  proof -
    from that out have "xs \<noteq> []" by (auto simp: render_def)
    from sj2[OF this] show ?thesis using out that by (simp add: render_def)
  qed
  show "\<exists>elems. list_all name_elem elems \<and> out = render True elems" if rooted
    using that r el out0 by auto
qed

lemma Clean_fin:
  "path \<noteq> [] \<Longrightarrow> Clean path = (if fst (clean_fin path) = [] then ''.'' else fst (clean_fin path))"
  by (simp add: Clean_def clean_fin_def Let_def)

lemma clean_fin_inv:
  "clean_inv (hd path = Separator) (fst (clean_fin path)) (snd (clean_fin path))"
  unfolding clean_fin_def using clean_loop_inv clean_inv_init by auto

lemma Clean_rooted:
  "\<exists>elems. list_all name_elem elems \<and> Clean (Separator # p) = render True elems"
proof -
  let ?path = "Separator # p"
  have r: "hd ?path = Separator" by simp
  from clean_inv_facts(2,4)[OF clean_fin_inv[of ?path]] r
  obtain elems where "list_all name_elem elems" "fst (clean_fin ?path) = render True elems"
    and "fst (clean_fin ?path) \<noteq> []" by auto
  then show ?thesis by (auto simp: Clean_fin)
qed

lemma Clean_render_True:
  assumes "list_all name_elem elems"
  shows "Clean (render True elems) = render True elems"
  by (simp add: Clean_def render_def clean_loop_elems[OF assms])

lemma Join_root_render:
  assumes "list_all name_elem elems" "rt \<noteq> []"
  defines "c \<equiv> render True elems"
  shows "Join [rt, c] =
     (if Clean rt = ''/'' then c
      else if c = ''/'' then Clean rt
      else if Clean rt = ''.'' then tl c
      else Clean rt @ c)"
proof -
  let ?r = "hd rt = Separator"
  let ?F = "clean_fin rt"
  let ?sj = "strings_Join elems [Separator]"
  have c: "c = Separator # ?sj" by (simp add: c_def render_def)
  have sj: "?sj = [] \<longleftrightarrow> elems = []"
    using assms(1) by (subst strings_Join_eq_Nil) (auto simp: list_all_iff name_elem_def)
  note inv = clean_fin_inv[of rt]
  note facts = clean_inv_facts[OF inv]
  have len: "?r \<longrightarrow> length (fst ?F) \<ge> 1" using facts(2) by (cases "fst ?F") auto
  have "clean_fin (rt @ Separator # c) =
          clean_loop ?r c (fst ?F) (snd ?F)"
    using assms(2) by (auto simp: clean_fin_def clean_loop_append_sep)
  also have "\<dots> = clean_loop ?r ?sj (fst ?F) (snd ?F)"
    by (simp add: c clean_loop_sep)
  also have "\<dots> = (fst ?F @ (if elems = [] then []
             else (if ?r \<and> length (fst ?F) \<noteq> 1 \<or> \<not> ?r \<and> length (fst ?F) \<noteq> 0
                   then [Separator] else []) @ ?sj), snd ?F)"
    by (rule clean_loop_elems[OF assms(1) len])
  finally have fin: "fst (clean_fin (rt @ Separator # c)) = fst ?F @ (if elems = [] then []
             else (if ?r \<and> length (fst ?F) \<noteq> 1 \<or> \<not> ?r \<and> length (fst ?F) \<noteq> 0
                   then [Separator] else []) @ ?sj)" by simp
  have J: "Join [rt, c] = Clean (rt @ Separator # c)"
    using assms(2) by simp
  have Cr: "Clean rt = (if fst ?F = [] then ''.'' else fst ?F)"
    by (rule Clean_fin[OF assms(2)])
  show ?thesis
  proof (cases "elems = []")
    case True
    then show ?thesis unfolding J using fin Cr c by (simp add: Clean_fin)
  next
    case False
    with sj have cne: "c \<noteq> ''/''" "?sj \<noteq> []" using c by auto
    show ?thesis
    proof (cases ?r)
      case True
      with facts(2) have ne: "fst ?F \<noteq> []" and hd: "hd (fst ?F) = Separator" by auto
      show ?thesis
      proof (cases "length (fst ?F) = 1")
        case l1: True
        with hd have "fst ?F = ''/''" by (cases "fst ?F") auto
        then show ?thesis unfolding J using fin Cr c False True by (simp add: Clean_fin)
      next
        case l2: False
        then have "fst ?F \<noteq> ''/''" by auto
        moreover have "fst ?F \<noteq> ''.''" using hd by auto
        ultimately show ?thesis
          unfolding J using fin Cr c False True ne l2 cne by (simp add: Clean_fin)
      qed
    next
      case nr: False
      show ?thesis
      proof (cases "fst ?F = []")
        case True
        then show ?thesis unfolding J using fin Cr c False nr cne by (simp add: Clean_fin)
      next
        case ne: False
        with facts(3) nr have "fst ?F \<noteq> ''/''" by auto
        then show ?thesis
          unfolding J using fin Cr c False nr cne ne facts(1) by (simp add: Clean_fin)
      qed
    qed
  qed
qed

lemma Join_empty_root:
  assumes "list_all name_elem elems"
  shows "Join [[], render True elems] = render True elems"
proof -
  have "render True elems \<noteq> []" by (simp add: render_def)
  then show ?thesis by (simp add: Clean_render_True[OF assms])
qed

lemma Join_index:
  assumes "list_all name_elem elems"
  shows "Join [render True elems, ''index.html''] = render True (elems @ [''index.html''])"
proof -
  have ne: "name_elem ''index.html''" by (simp add: name_elem_def)
  have all: "list_all name_elem (elems @ [''index.html''])" using assms ne by simp
  have "strings_Join [render True elems, ''index.html''] [Separator] =
          Separator # strings_Join elems [Separator] @ Separator # ''index.html''"
    by (simp add: render_def)
  then have "Join [render True elems, ''index.html''] =
          Clean (Separator # strings_Join elems [Separator] @ Separator # ''index.html'')"
    by (simp add: render_def)
  also have "\<dots> = fst (clean_loop True ''index.html''
        (fst (clean_loop True (strings_Join elems [Separator]) [Separator] 1))
        (snd (clean_loop True (strings_Join elems [Separator]) [Separator] 1)))"
    by (simp add: Clean_def clean_loop_append_sep clean_loop_name_elem[OF ne])
  also have "\<dots> = render True (elems @ [''index.html''])"
  proof -
    have "strings_Join elems [Separator] = [] \<longleftrightarrow> elems = []"
      using assms by (subst strings_Join_eq_Nil) (auto simp: list_all_iff name_elem_def)
    then show ?thesis
      by (simp add: clean_loop_elems[OF assms] clean_loop_name_elem[OF ne] render_def
          strings_Join_append)
  qed
  finally show ?thesis .
qed

section \<open>Properties of the resolver\<close>

lemma logf_proj [simp]:
  "resp (logf ss line st) = resp st" "calls (logf ss line st) = calls st"
  "panicked (logf ss line st) = panicked st" "reader (logf ss line st) = reader st"
  by (auto simp: logf_def split: option.splits)

lemma called_proj [simp]:
  "resp (called c st) = resp st" "calls (called c st) = calls st @ [c]"
  "panicked (called c st) = panicked st" "reader (called c st) = reader st"
  "logged (called c st) = logged st"
  by (auto simp: called_def)

lemma start_proj [simp]:
  "resp (start w) = w" "calls (start w) = []" "panicked (start w) = False"
  "reader (start w) = None" "logged (start w) = []"
  by (auto simp: start_def)

lemma call_handler_proj:
  "calls (call_handler ss c r st) = calls st @ [CallHandler c]"
  "reader (call_handler ss c r st) = reader st"
  "logged (call_handler ss c r st) = logged st"
  "index_map (errorHandlers ss) c = Some h \<Longrightarrow> resp (call_handler ss c r st) = h (resp st) r"
  "index_map (errorHandlers ss) c = Some h \<Longrightarrow> panicked (call_handler ss c r st) = panicked st"
  "index_map (errorHandlers ss) c = None \<Longrightarrow> resp (call_handler ss c r st) = resp st"
  "index_map (errorHandlers ss) c = None \<Longrightarrow> panicked (call_handler ss c r st)"
  by (auto simp: call_handler_def split: option.splits)

lemma serve_asset_open_fails:
  assumes "readerfn ss q = None"
  shows "serve_asset sc ss r q info st =
           call_handler ss StatusInternalServerError r
            (logf ss (''StaticServer: Error obtaining a reader to requested path. '' @
                      ''Returning http.StatusInternalServerError:'' @ q) (called (CallOpen q) st))"
  using assms by (simp add: serve_asset_def)

lemma serve_asset_served:
  assumes "readerfn ss q = Some rds"
  shows "resp (serve_asset sc ss r q info st) = sc (resp st) r (Name info) (ModTime info) rds"
    "calls (serve_asset sc ss r q info st) =
       calls st @ [CallOpen q, CallServeContent (Name info) (ModTime info) rds] @
         (if rs_closer rds then [CallClose] else [])"
    "panicked (serve_asset sc ss r q info st) = panicked st"
    "reader (serve_asset sc ss r q info st) =
       Some (if rs_closer rds then rds\<lparr>rs_closed := True\<rparr> else rds)"
  using assms by (auto simp: serve_asset_def Let_def)

text \<open>The five ways through the resolver.\<close>

lemma ServeHTTP_paths:
  fixes ss :: StaticServer and r :: request
  defines "c \<equiv> Clean (''/'' @ url_path r)"
  defines "idx \<equiv> Join [c, ''index.html'']"
  shows
    "stat ss c = None \<Longrightarrow>
       \<exists>st. calls st = [CallStat c] \<and> resp st = w \<and> \<not> panicked st \<and> reader st = None \<and>
            ServeHTTP sc ss w r = call_handler ss StatusNotFound r st"
    "stat ss c = Some d \<Longrightarrow> IsDir d \<Longrightarrow> stat ss idx = None \<Longrightarrow>
       \<exists>st. calls st = [CallStat c, CallStat idx] \<and> resp st = w \<and> \<not> panicked st \<and>
            reader st = None \<and> ServeHTTP sc ss w r = call_handler ss StatusNotFound r st"
    "stat ss c = Some d \<Longrightarrow> IsDir d \<Longrightarrow> stat ss idx = Some d' \<Longrightarrow> IsDir d' \<Longrightarrow>
       \<exists>st. calls st = [CallStat c, CallStat idx] \<and> resp st = w \<and> \<not> panicked st \<and>
            reader st = None \<and> ServeHTTP sc ss w r = call_handler ss StatusNotFound r st"
    "stat ss c = Some d \<Longrightarrow> IsDir d \<Longrightarrow> stat ss idx = Some fi \<Longrightarrow> \<not> IsDir fi \<Longrightarrow>
       \<exists>st. calls st = [CallStat c, CallStat idx] \<and> resp st = w \<and> \<not> panicked st \<and>
            reader st = None \<and> ServeHTTP sc ss w r = serve_asset sc ss r idx fi st"
    "stat ss c = Some fi \<Longrightarrow> \<not> IsDir fi \<Longrightarrow>
       \<exists>st. calls st = [CallStat c] \<and> resp st = w \<and> \<not> panicked st \<and> reader st = None \<and>
            ServeHTTP sc ss w r = serve_asset sc ss r c fi st"
proof -
  let ?st0 = "logf ss (''StaticServer: Request for :'' @ url_path r) (start w)"
  let ?st1 = "called (CallStat c) ?st0"
  let ?st2 = "logf ss (''StaticServer: The requested path was a directory. '' @
                       ''Trying to find index.html file in it:'' @ c) ?st1"
  let ?st3 = "called (CallStat idx) ?st2"
  have st1: "calls st = [CallStat c] \<and> resp st = w \<and> \<not> panicked st \<and> reader st = None"
    if "st = ?st1 \<or> (\<exists>l. st = logf ss l ?st1)" for st
    using that by auto
  have st3: "calls st = [CallStat c, CallStat idx] \<and> resp st = w \<and> \<not> panicked st \<and> reader st = None"
    if "st = ?st3 \<or> (\<exists>l. st = logf ss l ?st3)" for st
    using that by auto
  show "\<exists>st. calls st = [CallStat c] \<and> resp st = w \<and> \<not> panicked st \<and> reader st = None \<and>
            ServeHTTP sc ss w r = call_handler ss StatusNotFound r st"
    if "stat ss c = None"
  proof -
    have "ServeHTTP sc ss w r = call_handler ss StatusNotFound r
       (logf ss (''StaticServer: Error finding requested path. '' @
                 ''Returning http.StatusNotFound:'' @ c) ?st1)"
      using that by (simp add: ServeHTTP_def Let_def c_def)
    with st1 show ?thesis by blast
  qed
  show "\<exists>st. calls st = [CallStat c, CallStat idx] \<and> resp st = w \<and> \<not> panicked st \<and>
            reader st = None \<and> ServeHTTP sc ss w r = call_handler ss StatusNotFound r st"
    if "stat ss c = Some d" "IsDir d" "stat ss idx = None"
  proof -
    have "ServeHTTP sc ss w r = call_handler ss StatusNotFound r
       (logf ss (''StaticServer: index.html was not found. '' @
                 ''Returning http.StatusNotFound:'' @ idx) ?st3)"
      using that by (simp add: ServeHTTP_def Let_def c_def idx_def)
    with st3 show ?thesis by blast
  qed
  show "\<exists>st. calls st = [CallStat c, CallStat idx] \<and> resp st = w \<and> \<not> panicked st \<and>
            reader st = None \<and> ServeHTTP sc ss w r = call_handler ss StatusNotFound r st"
    if "stat ss c = Some d" "IsDir d" "stat ss idx = Some d'" "IsDir d'"
  proof -
    have "ServeHTTP sc ss w r = call_handler ss StatusNotFound r
       (logf ss (''StaticServer: index.html is a folder. '' @
                 ''Returning http.StatusNotFound:'' @ idx) ?st3)"
      using that by (simp add: ServeHTTP_def Let_def c_def idx_def)
    with st3 show ?thesis by blast
  qed
  show "\<exists>st. calls st = [CallStat c, CallStat idx] \<and> resp st = w \<and> \<not> panicked st \<and>
            reader st = None \<and> ServeHTTP sc ss w r = serve_asset sc ss r idx fi st"
    if "stat ss c = Some d" "IsDir d" "stat ss idx = Some fi" "\<not> IsDir fi"
  proof -
    have "ServeHTTP sc ss w r = serve_asset sc ss r idx fi ?st3"
      using that by (simp add: ServeHTTP_def Let_def c_def idx_def)
    with st3 show ?thesis by blast
  qed
  show "\<exists>st. calls st = [CallStat c] \<and> resp st = w \<and> \<not> panicked st \<and> reader st = None \<and>
            ServeHTTP sc ss w r = serve_asset sc ss r c fi st"
    if "stat ss c = Some fi" "\<not> IsDir fi"
  proof -
    have "ServeHTTP sc ss w r = serve_asset sc ss r c fi ?st1"
      using that by (simp add: ServeHTTP_def Let_def c_def)
    with st1 show ?thesis by blast
  qed
qed

lemma handler_codes_simps [simp]:
  "handler_codes [] = []"
  "handler_codes (CallHandler c # cs) = c # handler_codes cs"
  "handler_codes (CallStat p # cs) = handler_codes cs"
  "handler_codes (CallOpen p # cs) = handler_codes cs"
  "handler_codes (CallServeContent n t rd # cs) = handler_codes cs"
  "handler_codes (CallClose # cs) = handler_codes cs"
  "handler_codes (CallError c # cs) = handler_codes cs"
  "handler_codes (CallServeFile p # cs) = handler_codes cs"
  "handler_codes (xs @ ys) = handler_codes xs @ handler_codes ys"
  by (simp_all add: handler_codes_def)

text \<open>The resolver follows the resolution: not found, or the asset is opened.\<close>

lemma resolve_None_iff:
  "resolve ss r = None \<longleftrightarrow>
     stat ss (Clean (''/'' @ url_path r)) = None \<or>
     (\<exists>d. stat ss (Clean (''/'' @ url_path r)) = Some d \<and> IsDir d \<and>
        (stat ss (Join [Clean (''/'' @ url_path r), ''index.html'']) = None \<or>
         (\<exists>d'. stat ss (Join [Clean (''/'' @ url_path r), ''index.html'']) = Some d' \<and> IsDir d')))"
  by (auto simp: resolve_def Let_def split: option.splits)

lemma resolve_Some_iff:
  "resolve ss r = Some (q, fi) \<longleftrightarrow>
     (stat ss (Clean (''/'' @ url_path r)) = Some fi \<and> \<not> IsDir fi \<and>
        q = Clean (''/'' @ url_path r)) \<or>
     (\<exists>d. stat ss (Clean (''/'' @ url_path r)) = Some d \<and> IsDir d \<and>
        stat ss (Join [Clean (''/'' @ url_path r), ''index.html'']) = Some fi \<and> \<not> IsDir fi \<and>
        q = Join [Clean (''/'' @ url_path r), ''index.html''])"
  by (auto simp: resolve_def Let_def split: option.splits)

lemma resolve_stat:
  assumes "resolve ss r = Some (q, fi)"
  shows "stat ss q = Some fi" "\<not> IsDir fi"
  using assms by (auto simp: resolve_Some_iff)

lemma ServeHTTP_resolve_None:
  assumes "resolve ss r = None"
  shows "\<exists>st. calls st = stat_calls ss r \<and> resp st = w \<and> \<not> panicked st \<and> reader st = None \<and>
              ServeHTTP sc ss w r = call_handler ss StatusNotFound r st"
proof -
  let ?c = "Clean (''/'' @ url_path r)"
  let ?idx = "Join [?c, ''index.html'']"
  show ?thesis
  proof (cases "stat ss ?c")
    case None
    then have "stat_calls ss r = [CallStat ?c]" by (simp add: stat_calls_def Let_def)
    with ServeHTTP_paths(1)[OF None, of w sc] show ?thesis by auto
  next
    case (Some d)
    with assms have d: "IsDir d" by (auto simp: resolve_None_iff)
    with Some have sc: "stat_calls ss r = [CallStat ?c, CallStat ?idx]"
      by (simp add: stat_calls_def Let_def)
    show ?thesis
    proof (cases "stat ss ?idx")
      case None
      from ServeHTTP_paths(2)[OF Some d None, of w sc] sc show ?thesis by auto
    next
      case idx: (Some d')
      with assms d Some have "IsDir d'" by (auto simp: resolve_None_iff)
      from ServeHTTP_paths(3)[OF Some d idx this, of w sc] sc show ?thesis by auto
    qed
  qed
qed

lemma ServeHTTP_resolve_Some:
  assumes "resolve ss r = Some (q, fi)"
  shows "\<exists>st. calls st = stat_calls ss r \<and> resp st = w \<and> \<not> panicked st \<and> reader st = None \<and>
              ServeHTTP sc ss w r = serve_asset sc ss r q fi st"
proof -
  let ?c = "Clean (''/'' @ url_path r)"
  let ?idx = "Join [?c, ''index.html'']"
  from assms consider
      (isfile) "stat ss ?c = Some fi" "\<not> IsDir fi" "q = ?c"
    | (isindex) d where "stat ss ?c = Some d" "IsDir d" "stat ss ?idx = Some fi" "\<not> IsDir fi" "q = ?idx"
    by (auto simp: resolve_Some_iff)
  then show ?thesis
  proof cases
    case isfile
    then have "stat_calls ss r = [CallStat ?c]" by (simp add: stat_calls_def Let_def)
    with ServeHTTP_paths(5)[OF isfile(1,2), of w sc] isfile(3) show ?thesis by auto
  next
    case isindex
    then have "stat_calls ss r = [CallStat ?c, CallStat ?idx]" by (simp add: stat_calls_def Let_def)
    with ServeHTTP_paths(4)[OF isindex(1,2,3,4), of w sc] isindex(5) show ?thesis by auto
  qed
qed

text \<open>What a run shows, by resolution and by the result of the open.\<close>

lemma run_not_found:
  assumes "resolve ss r = None"
  shows "calls (ServeHTTP sc ss w r) = stat_calls ss r @ [CallHandler StatusNotFound]"
    and "resp (ServeHTTP sc ss w r) = handled ss StatusNotFound w r"
    and "panicked (ServeHTTP sc ss w r) \<longleftrightarrow> index_map (errorHandlers ss) StatusNotFound = None"
    and "reader (ServeHTTP sc ss w r) = None"
proof -
  from ServeHTTP_resolve_None[OF assms, of w sc] obtain st where
    st: "calls st = stat_calls ss r" "resp st = w" "\<not> panicked st" "reader st = None"
    and run: "ServeHTTP sc ss w r = call_handler ss StatusNotFound r st" by blast
  show "calls (ServeHTTP sc ss w r) = stat_calls ss r @ [CallHandler StatusNotFound]"
    unfolding run by (simp add: call_handler_proj st)
  show "resp (ServeHTTP sc ss w r) = handled ss StatusNotFound w r"
    unfolding run handled_def
    by (cases "index_map (errorHandlers ss) StatusNotFound") (simp_all add: call_handler_proj st)
  show "panicked (ServeHTTP sc ss w r) \<longleftrightarrow> index_map (errorHandlers ss) StatusNotFound = None"
    unfolding run
    by (cases "index_map (errorHandlers ss) StatusNotFound") (simp_all add: call_handler_proj st)
  show "reader (ServeHTTP sc ss w r) = None"
    unfolding run by (simp add: call_handler_proj st)
qed

lemma run_open_fails:
  assumes "resolve ss r = Some (q, fi)" "readerfn ss q = None"
  shows "calls (ServeHTTP sc ss w r) =
           stat_calls ss r @ [CallOpen q, CallHandler StatusInternalServerError]"
    and "resp (ServeHTTP sc ss w r) = handled ss StatusInternalServerError w r"
    and "panicked (ServeHTTP sc ss w r) \<longleftrightarrow>
           index_map (errorHandlers ss) StatusInternalServerError = None"
    and "reader (ServeHTTP sc ss w r) = None"
proof -
  from ServeHTTP_resolve_Some[OF assms(1), of w sc] obtain st where
    st: "calls st = stat_calls ss r" "resp st = w" "\<not> panicked st" "reader st = None"
    and run: "ServeHTTP sc ss w r = serve_asset sc ss r q fi st" by blast
  note run' = run[unfolded serve_asset_open_fails[OF assms(2)]]
  show "calls (ServeHTTP sc ss w r) =
          stat_calls ss r @ [CallOpen q, CallHandler StatusInternalServerError]"
    unfolding run' by (simp add: call_handler_proj st)
  show "resp (ServeHTTP sc ss w r) = handled ss StatusInternalServerError w r"
    unfolding run' handled_def
    by (cases "index_map (errorHandlers ss) StatusInternalServerError")
       (simp_all add: call_handler_proj st)
  show "panicked (ServeHTTP sc ss w r) \<longleftrightarrow>
          index_map (errorHandlers ss) StatusInternalServerError = None"
    unfolding run'
    by (cases "index_map (errorHandlers ss) StatusInternalServerError")
       (simp_all add: call_handler_proj st)
  show "reader (ServeHTTP sc ss w r) = None"
    unfolding run' by (simp add: call_handler_proj st)
qed

lemma run_served:
  assumes "resolve ss r = Some (q, fi)" "readerfn ss q = Some rds"
  shows "calls (ServeHTTP sc ss w r) =
           stat_calls ss r @ [CallOpen q, CallServeContent (Name fi) (ModTime fi) rds] @
             (if rs_closer rds then [CallClose] else [])"
    and "resp (ServeHTTP sc ss w r) = sc w r (Name fi) (ModTime fi) rds"
    and "\<not> panicked (ServeHTTP sc ss w r)"
    and "reader (ServeHTTP sc ss w r) =
           Some (if rs_closer rds then rds\<lparr>rs_closed := True\<rparr> else rds)"
proof -
  from ServeHTTP_resolve_Some[OF assms(1), of w sc] obtain st where
    st: "calls st = stat_calls ss r" "resp st = w" "\<not> panicked st" "reader st = None"
    and run: "ServeHTTP sc ss w r = serve_asset sc ss r q fi st" by blast
  show "calls (ServeHTTP sc ss w r) =
           stat_calls ss r @ [CallOpen q, CallServeContent (Name fi) (ModTime fi) rds] @
             (if rs_closer rds then [CallClose] else [])"
    unfolding run serve_asset_served(2)[OF assms(2)] st by simp
  show "resp (ServeHTTP sc ss w r) = sc w r (Name fi) (ModTime fi) rds"
    unfolding run serve_asset_served(1)[OF assms(2)] st by simp
  show "\<not> panicked (ServeHTTP sc ss w r)"
    unfolding run serve_asset_served(3)[OF assms(2)] using st by simp
  show "reader (ServeHTTP sc ss w r) =
           Some (if rs_closer rds then rds\<lparr>rs_closed := True\<rparr> else rds)"
    unfolding run serve_asset_served(4)[OF assms(2)] by simp
qed

lemma stat_calls_stats: "list_all is_stat (stat_calls ss r)" "length (stat_calls ss r) \<le> 2"
  "filter is_open (stat_calls ss r) = []" "handler_codes (stat_calls ss r) = []"
  "\<not> list_ex is_serve (stat_calls ss r)"
  by (auto simp: stat_calls_def Let_def split: option.splits)

text \<open>The table that \<open>setupErrorHandlers\<close> builds.\<close>

lemma setupErrorHandlers_Some:
  "setupErrorHandlers (Some m) =
     Some (Map.empty
       (StatusNotFound \<mapsto>
          (case m StatusNotFound of Some custom \<Rightarrow> custom
           | None \<Rightarrow> Some (\<lambda>w r. http_Error w ''Not Found'' StatusNotFound)),
        StatusInternalServerError \<mapsto>
          (case m StatusInternalServerError of Some custom \<Rightarrow> custom
           | None \<Rightarrow> Some (\<lambda>w r. http_Error w ''Internal Server Error'' StatusInternalServerError))))"
  by (simp add: setupErrorHandlers_def defaultErrorHandlers_def setup_step_def
      split: option.splits)

lemma setupErrorHandlers_None:
  "setupErrorHandlers None =
     Some (Map.empty
       (StatusNotFound \<mapsto> Some (\<lambda>w r. http_Error w ''Not Found'' StatusNotFound),
        StatusInternalServerError \<mapsto>
          Some (\<lambda>w r. http_Error w ''Internal Server Error'' StatusInternalServerError)))"
  by (auto simp: setupErrorHandlers_def defaultErrorHandlers_def)

lemma index_setup_custom:
  assumes "c = StatusNotFound \<or> c = StatusInternalServerError" "m c = Some h"
  shows "index_map (setupErrorHandlers (Some m)) c = h"
  using assms by (auto simp: setupErrorHandlers_Some index_map_def)

lemma index_setup_default:
  assumes "eh = None \<or> (\<exists>m. eh = Some m \<and> m c = None)"
  shows "c = StatusNotFound \<Longrightarrow>
           index_map (setupErrorHandlers eh) c = Some (\<lambda>w r. http_Error w ''Not Found'' StatusNotFound)"
    and "c = StatusInternalServerError \<Longrightarrow>
           index_map (setupErrorHandlers eh) c =
             Some (\<lambda>w r. http_Error w ''Internal Server Error'' StatusInternalServerError)"
  using assms by (auto simp: setupErrorHandlers_Some setupErrorHandlers_None index_map_def)

lemma index_setup_other:
  assumes "c \<noteq> StatusNotFound" "c \<noteq> StatusInternalServerError"
  shows "index_map (setupErrorHandlers eh) c = None"
  using assms
  by (cases eh) (auto simp: setupErrorHandlers_Some setupErrorHandlers_None index_map_def)

lemma dom_setupErrorHandlers:
  "\<exists>t. setupErrorHandlers eh = Some t \<and> dom t = {StatusNotFound, StatusInternalServerError}"
  by (cases eh) (auto simp: setupErrorHandlers_Some setupErrorHandlers_None)

lemma run_handler_codes:
  "handler_codes (calls (ServeHTTP sc ss w r)) =
     (case resolve ss r of
        None \<Rightarrow> [StatusNotFound]
      | Some qf \<Rightarrow>
          (case readerfn ss (fst qf) of
             None \<Rightarrow> [StatusInternalServerError]
           | Some rds \<Rightarrow> []))"
proof (cases "resolve ss r")
  case None
  then show ?thesis by (simp add: run_not_found(1) stat_calls_stats)
next
  case (Some qf)
  obtain q fi where qf: "qf = (q, fi)" by (cases qf)
  show ?thesis
  proof (cases "readerfn ss q")
    case None
    with Some qf show ?thesis by (simp add: run_open_fails(1) stat_calls_stats)
  next
    case rd: (Some rds)
    with Some qf show ?thesis by (simp add: run_served(1) stat_calls_stats)
  qed
qed

lemma run_open_calls:
  "filter is_open (calls (ServeHTTP sc ss w r)) =
     (case resolve ss r of None \<Rightarrow> [] | Some qf \<Rightarrow> [CallOpen (fst qf)])"
proof (cases "resolve ss r")
  case None
  then show ?thesis by (simp add: run_not_found(1) stat_calls_stats)
next
  case (Some qf)
  obtain q fi where qf: "qf = (q, fi)" by (cases qf)
  show ?thesis
  proof (cases "readerfn ss q")
    case None
    with Some qf show ?thesis by (simp add: run_open_fails(1) stat_calls_stats)
  next
    case rd: (Some rds)
    with Some qf show ?thesis by (simp add: run_served(1) stat_calls_stats)
  qed
qed

lemma run_serve_calls:
  "list_ex is_serve (calls (ServeHTTP sc ss w r)) \<longleftrightarrow>
     (\<exists>q fi rds. resolve ss r = Some (q, fi) \<and> readerfn ss q = Some rds)"
proof (cases "resolve ss r")
  case None
  then show ?thesis using stat_calls_stats(5)[of ss r] by (simp add: run_not_found(1))
next
  case (Some qf)
  obtain q fi where qf: "qf = (q, fi)" by (cases qf)
  show ?thesis
  proof (cases "readerfn ss q")
    case None
    with Some qf show ?thesis using stat_calls_stats(5)[of ss r] by (simp add: run_open_fails(1))
  next
    case rd: (Some rds)
    with Some qf show ?thesis by (simp add: run_served(1))
  qed
qed

lemma run_reader:
  "reader (ServeHTTP sc ss w r) \<noteq> None \<longleftrightarrow>
     (\<exists>q fi rds. resolve ss r = Some (q, fi) \<and> readerfn ss q = Some rds)"
proof (cases "resolve ss r")
  case None
  then show ?thesis by (simp add: run_not_found(4))
next
  case (Some qf)
  obtain q fi where qf: "qf = (q, fi)" by (cases qf)
  show ?thesis
  proof (cases "readerfn ss q")
    case None
    with Some qf show ?thesis by (simp add: run_open_fails(4))
  next
    case rd: (Some rds)
    with Some qf show ?thesis by (simp add: run_served(4))
  qed
qed

lemma logger_irrelevant:
  "resp (ServeHTTP sc (ss\<lparr>logger := l\<rparr>) w r) = resp (ServeHTTP sc ss w r)"
  "calls (ServeHTTP sc (ss\<lparr>logger := l\<rparr>) w r) = calls (ServeHTTP sc ss w r)"
  "panicked (ServeHTTP sc (ss\<lparr>logger := l\<rparr>) w r) = panicked (ServeHTTP sc ss w r)"
  "reader (ServeHTTP sc (ss\<lparr>logger := l\<rparr>) w r) = reader (ServeHTTP sc ss w r)"
proof -
  let ?ss = "ss\<lparr>logger := l\<rparr>"
  have res: "resolve ?ss r = resolve ss r"
    by (simp add: resolve_def Let_def cong: option.case_cong if_cong)
  have sc: "stat_calls ?ss r = stat_calls ss r"
    by (simp add: stat_calls_def Let_def cong: option.case_cong if_cong)
  have hd: "handled ?ss c w r = handled ss c w r" for c by (simp add: handled_def)
  have all: "resp (ServeHTTP sc ?ss w r) = resp (ServeHTTP sc ss w r) \<and>
    calls (ServeHTTP sc ?ss w r) = calls (ServeHTTP sc ss w r) \<and>
    panicked (ServeHTTP sc ?ss w r) = panicked (ServeHTTP sc ss w r) \<and>
    reader (ServeHTTP sc ?ss w r) = reader (ServeHTTP sc ss w r)"
  proof (cases "resolve ss r")
    case None
    with res have "resolve ?ss r = None" by simp
    from run_not_found[OF this] run_not_found[OF None] show ?thesis by (simp add: sc hd)
  next
    case (Some qf)
    obtain q fi where qf: "qf = (q, fi)" by (cases qf)
    with Some res have r1: "resolve ss r = Some (q, fi)" and r2: "resolve ?ss r = Some (q, fi)"
      by simp_all
    show ?thesis
    proof (cases "readerfn ss q")
      case None
      then have "readerfn ?ss q = None" by simp
      from run_open_fails[OF r2 this] run_open_fails[OF r1 None] show ?thesis
        by (simp add: sc hd)
    next
      case rd: (Some rds)
      then have "readerfn ?ss q = Some rds" by simp
      from run_served[OF r2 this] run_served[OF r1 rd] show ?thesis by (simp add: sc)
    qed
  qed
  then show "resp (ServeHTTP sc ?ss w r) = resp (ServeHTTP sc ss w r)"
    "calls (ServeHTTP sc ?ss w r) = calls (ServeHTTP sc ss w r)"
    "panicked (ServeHTTP sc ?ss w r) = panicked (ServeHTTP sc ss w r)"
    "reader (ServeHTTP sc ?ss w r) = reader (ServeHTTP sc ss w r)"
    by simp_all
qed

lemma handled_Some:
  "index_map (errorHandlers ss) c = Some h \<Longrightarrow> handled ss c w r = h w r"
  by (simp add: handled_def)

lemma ServeHTTP2_stat_fails:
  assumes "lstat (Join [root fs, Clean (''/'' @ url_path r)]) = Inl err"
  shows "calls (ServeHTTP2 lstat serveFile fs w r) =
           [CallStat (Join [root fs, Clean (''/'' @ url_path r)]), CallError StatusBadRequest]"
    and "resp (ServeHTTP2 lstat serveFile fs w r) = http_Error w ''Bad Request'' StatusBadRequest"
  using assms by (simp_all add: ServeHTTP2_def Let_def bad_request_def)

lemma CallServeContent_in_calls:
  assumes "CallServeContent n t rd \<in> set (calls (ServeHTTP sc ss w r))"
  shows "\<exists>q fi. resolve ss r = Some (q, fi) \<and> readerfn ss q = Some rd \<and>
                n = Name fi \<and> t = ModTime fi"
proof (cases "resolve ss r")
  case None
  with assms stat_calls_stats(1)[of ss r] show ?thesis
    by (auto simp: run_not_found(1) list_all_iff)
next
  case (Some qf)
  obtain q fi where qf: "qf = (q, fi)" by (cases qf)
  show ?thesis
  proof (cases "readerfn ss q")
    case None
    with assms Some qf stat_calls_stats(1)[of ss r] show ?thesis
      by (auto simp: run_open_fails(1) list_all_iff)
  next
    case rd: (Some rds)
    with assms Some qf stat_calls_stats(1)[of ss r] show ?thesis
      by (auto simp: run_served(1) list_all_iff split: if_splits)
  qed
qed

lemma run_stat_calls:
  "filter is_stat (calls (ServeHTTP sc ss w r)) = stat_calls ss r"
proof -
  have f: "filter is_stat (stat_calls ss r) = stat_calls ss r"
    using stat_calls_stats(1)[of ss r] by (simp add: list_all_iff)
  show ?thesis
  proof (cases "resolve ss r")
    case None
    then show ?thesis by (simp add: run_not_found(1) f)
  next
    case (Some qf)
    obtain q fi where qf: "qf = (q, fi)" by (cases qf)
    show ?thesis
    proof (cases "readerfn ss q")
      case None
      with Some qf show ?thesis by (simp add: run_open_fails(1) f)
    next
      case rd: (Some rds)
      with Some qf show ?thesis by (simp add: run_served(1) f)
    qed
  qed
qed

lemma constructors_errorHandlers:
  "errorHandlers (VFSStaticServer f eh lg) = setupErrorHandlers eh"
  "errorHandlers (MapSS m eh lg) = setupErrorHandlers eh"
  "errorHandlers (OSSS vfs_OS rootdir eh lg) = setupErrorHandlers eh"
  "errorHandlers (ZipSS zipfs_New rc name eh lg) = setupErrorHandlers eh"
  "errorHandlers (RawStaticServer st rd eh lg) = eh"
  by (simp_all add: VFSStaticServer_def MapSS_def OSSS_def ZipSS_def RawStaticServer_def)

lemma Join_index_append:
  "Join [Clean (''/'' @ p), ''index.html''] =
     (if Clean (''/'' @ p) = ''/'' then ''/index.html'' else Clean (''/'' @ p) @ ''/index.html'')"
proof -
  obtain elems where el: "list_all name_elem elems" and c: "Clean (''/'' @ p) = render True elems"
    using Clean_rooted[of p] by auto
  have sj: "strings_Join elems [Separator] = [] \<longleftrightarrow> elems = []"
    using el by (subst strings_Join_eq_Nil) (auto simp: list_all_iff name_elem_def)
  show ?thesis
    unfolding c Join_index[OF el] using sj
    by (auto simp: render_def strings_Join_append)
qed

lemma Clean_nonempty: "Clean p \<noteq> []"
  by (simp add: Clean_def Let_def)

lemma Join_index_nonempty: "Join [p, ''index.html''] \<noteq> []"
  by (simp add: Clean_nonempty)

lemma ServeHTTP2_index:
  assumes "lstat (Join [root fs, Clean (''/'' @ url_path r)]) = Inr d" "IsDir d"
    and "lstat (Join [Join [root fs, Clean (''/'' @ url_path r)], ''index.html'']) = Inr fi"
  shows "calls (ServeHTTP2 lstat serveFile fs w r) =
           [CallStat (Join [root fs, Clean (''/'' @ url_path r)]),
            CallStat (Join [Join [root fs, Clean (''/'' @ url_path r)], ''index.html'']),
            CallServeFile (Join [Join [root fs, Clean (''/'' @ url_path r)], ''index.html''])]"
    and "resp (ServeHTTP2 lstat serveFile fs w r) =
           serveFile w r (Join [Join [root fs, Clean (''/'' @ url_path r)], ''index.html''])"
proof -
  define p where "p = Join [root fs, Clean (''/'' @ url_path r)]"
  define q where "q = Join [p, ''index.html'']"
  have ne: "q \<noteq> []" unfolding q_def by (rule Join_index_nonempty)
  have l: "lstat p = Inr d" "lstat q = Inr fi" using assms(1,3) by (simp_all only: p_def q_def)
  have "find_default lstat p defaultfiles =
          (let temppath = Join [p, ''index.html''] in
           case lstat temppath of
             Inr fi \<Rightarrow> (temppath, [CallStat temppath])
           | Inl err \<Rightarrow>
               (let res = find_default lstat p [''index.htm'']
                in (fst res, CallStat temppath # snd res)))"
    unfolding defaultfiles_def by (rule find_default.simps(2))
  then have fd: "find_default lstat p defaultfiles = (q, [CallStat q])"
    unfolding q_def[symmetric] Let_def l by simp
  have run: "ServeHTTP2 lstat serveFile fs w r =
          serve_file serveFile r q ((called (CallStat p) (start w))
            \<lparr>calls := calls (called (CallStat p) (start w)) @ [CallStat q]\<rparr>)"
    unfolding ServeHTTP2_def p_def[symmetric] Let_def l fd using assms(2) ne by simp
  show "calls (ServeHTTP2 lstat serveFile fs w r) =
           [CallStat (Join [root fs, Clean (''/'' @ url_path r)]),
            CallStat (Join [Join [root fs, Clean (''/'' @ url_path r)], ''index.html'']),
            CallServeFile (Join [Join [root fs, Clean (''/'' @ url_path r)], ''index.html''])]"
    unfolding run p_def[symmetric] q_def[symmetric] by (simp add: serve_file_def)
  show "resp (ServeHTTP2 lstat serveFile fs w r) =
           serveFile w r (Join [Join [root fs, Clean (''/'' @ url_path r)], ''index.html''])"
    unfolding run p_def[symmetric] q_def[symmetric] by (simp add: serve_file_def)
qed

lemma TestIndex:
  "code (resp (ServeHTTP ServeContent_plain (MapSS testmap None None) NewRecorder
                 (plain_get ''/''))) = 200"
  "body (resp (ServeHTTP ServeContent_plain (MapSS testmap None None) NewRecorder
                 (plain_get ''/''))) = ''root index file''"
  "code (resp (ServeHTTP ServeContent_plain (MapSS testmap None None) NewRecorder
                 (plain_get ''/sub/''))) = 200"
  "body (resp (ServeHTTP ServeContent_plain (MapSS testmap None None) NewRecorder
                 (plain_get ''/sub/''))) = ''sub index file''"
  by code_simp+

section \<open>The repository's tests\<close>

text \<open>
  The tests \<^verbatim>\<open>TestNotFound\<close> (an empty map, a directory without \<^verbatim>\<open>index.html\<close>, an
  \<^verbatim>\<open>index.html\<close> that is a directory) and \<^verbatim>\<open>TestErrorHandlers\<close> (a custom handler for
  404), run on the model; \<open>TestIndex\<close> is above.
\<close>

lemma TestNotFound:
  "code (resp (ServeHTTP ServeContent_plain (MapSS [] None None) NewRecorder
                 (plain_get ''/''))) = StatusNotFound"
  "code (resp (ServeHTTP ServeContent_plain
                 (MapSS [(''sub/test.html'', ''Dummy file'')] None None) NewRecorder
                 (plain_get ''/sub''))) = StatusNotFound"
  "code (resp (ServeHTTP ServeContent_plain
                 (MapSS [(''index.html/index.html'', ''This should fail'')] None None)
                 NewRecorder (plain_get ''/''))) = StatusNotFound"
  by code_simp+

lemma TestErrorHandlers:
  "code (resp (ServeHTTP ServeContent_plain
                 (MapSS [] (Some [StatusNotFound \<mapsto> Some notfound]) None) NewRecorder
                 (plain_get ''/''))) = StatusNotFound"
  "body (resp (ServeHTTP ServeContent_plain
                 (MapSS [] (Some [StatusNotFound \<mapsto> Some notfound]) None) NewRecorder
                 (plain_get ''/''))) = ''Custom Not Found Handler''"
  by code_simp+

section \<open>The claims\<close>

subsection \<open>C1: the resolved path stays below the served root\<close>

text \<open>
  The claim as stated fails where it says that the joined path has the root as a
  prefix: \<^verbatim>\<open>filepath.Join\<close> cleans the root too, so for the root \<^verbatim>\<open>./public\<close> the
  second variant stats and serves \<^verbatim>\<open>public/index.html\<close>.
\<close>

theorem root_prefix_counterexample:
  "NewStaticServer lstat_public ''./public'' = Inr \<lparr>root = ''./public''\<rparr> \<and>
   calls (ServeHTTP2 lstat_public ServeFile_name \<lparr>root = ''./public''\<rparr> NewRecorder
            (plain_get ''/index.html'')) =
     [CallStat ''public/index.html'', CallServeFile ''public/index.html''] \<and>
   \<not> prefix ''./public'' ''public/index.html''"
  by code_simp

text \<open>
  C1 (amended). For every request path \<open>p\<close>, the cleaned path
  \<^verbatim>\<open>filepath.Clean("/" + p)\<close> is the separator followed by real path elements
  (none empty, none \<^verbatim>\<open>.\<close> or \<^verbatim>\<open>..\<close>, none with a separator) with one separator
  between two of them: it never begins with, nor contains, a \<^verbatim>\<open>..\<close> segment. Joined
  to a root, it gives the cleaned root followed by the cleaned path (the cleaned path
  itself for the root \<^verbatim>\<open>/\<close> or an empty root, the cleaned path without its leading
  separator when the root cleans to \<^verbatim>\<open>.\<close>): the joined path has the cleaned root,
  not the root as written, as a prefix.
\<close>

theorem reqpath_confined:
  fixes p rt :: string
  defines "c \<equiv> Clean (''/'' @ p)"
  shows "c = render True (path_elems c) \<and> list_all name_elem (path_elems c) \<and>
         Join [rt, c] =
           (if rt = [] \<or> Clean rt = ''/'' then c
            else if c = ''/'' then Clean rt
            else if Clean rt = ''.'' then tl c
            else Clean rt @ c) \<and>
         (rt \<noteq> [] \<and> Clean rt \<noteq> ''.'' \<longrightarrow> prefix (Clean rt) (Join [rt, c]))"
proof -
  obtain elems where el: "list_all name_elem elems" and c: "c = render True elems"
    using Clean_rooted[of p] unfolding c_def by auto
  have pe: "path_elems c = elems" unfolding c by (rule path_elems_render[OF el])
  have J: "Join [rt, c] =
           (if rt = [] \<or> Clean rt = ''/'' then c
            else if c = ''/'' then Clean rt
            else if Clean rt = ''.'' then tl c
            else Clean rt @ c)"
  proof (cases "rt = []")
    case True
    then show ?thesis unfolding c using Join_empty_root[OF el] by simp
  next
    case False
    then show ?thesis unfolding c using Join_root_render[OF el False] by simp
  qed
  have hd: "prefix ''/'' c" unfolding c by (simp add: render_def)
  have "prefix (Clean rt) (Join [rt, c])" if "rt \<noteq> []" "Clean rt \<noteq> ''.''"
    unfolding J using that hd by auto
  with pe el c J show ?thesis by simp
qed

theorem reqpath_confined_witness:
  "Clean (''/'' @ ''../../etc/passwd'') =
     render True (path_elems (Clean (''/'' @ ''../../etc/passwd''))) \<and>
   list_all name_elem (path_elems (Clean (''/'' @ ''../../etc/passwd''))) \<and>
   Join [''./public'', Clean (''/'' @ ''../../etc/passwd'')] = ''public/etc/passwd'' \<and>
   Clean ''./public'' = ''public'' \<and>
   prefix (Clean ''./public'') (Join [''./public'', Clean (''/'' @ ''../../etc/passwd'')])"
proof -
  have e: "Clean ''./public'' = ''public''" "Clean (''/'' @ ''../../etc/passwd'') = ''/etc/passwd''"
    by code_simp+
  from reqpath_confined[of "''../../etc/passwd''" "''./public''"]
  show ?thesis unfolding e by simp
qed

subsection \<open>C2: a directory is answered with its index document\<close>

text \<open>
  The claim as stated fails when the index document stats as a file and the backend
  cannot open it: the entry for 500 answers and nothing is served.
\<close>

theorem index_open_fails_counterexample:
  "stat (RawStaticServer stat_index open_fails (setupErrorHandlers None) None) ''/'' =
     Some (dir_info ''/'') \<and>
   stat (RawStaticServer stat_index open_fails (setupErrorHandlers None) None) ''/index.html'' =
     Some (file_info ''index.html'') \<and>
   calls (ServeHTTP ServeContent_plain
            (RawStaticServer stat_index open_fails (setupErrorHandlers None) None)
            NewRecorder (plain_get ''/'')) =
     [CallStat ''/'', CallStat ''/index.html'', CallOpen ''/index.html'',
      CallHandler StatusInternalServerError] \<and>
   code (resp (ServeHTTP ServeContent_plain
            (RawStaticServer stat_index open_fails (setupErrorHandlers None) None)
            NewRecorder (plain_get ''/''))) = StatusInternalServerError"
  by code_simp

text \<open>
  C2 (amended). For every request whose cleaned path stats as a directory, the
  resolver appends \<^verbatim>\<open>index.html\<close> to the path (after one separator) and stats it; if
  that stats as a non-directory and the backend opens a reader on it, the
  content-serving primitive is called with the index's name, modification time and
  reader, and what it writes is the response; if the open fails, the entry for 500
  is called instead. With the backend map of \<^verbatim>\<open>TestIndex\<close> and a primitive that
  answers a plain request with 200 and the content, a request for \<^verbatim>\<open>/\<close> yields 200
  with body ``root index file'' and a request for \<^verbatim>\<open>/sub/\<close> yields 200 with body
  ``sub index file''. In the second variant the index document that stats is handed
  to \<^verbatim>\<open>http.ServeFile\<close>.
\<close>

theorem index_document_served:
  fixes ss :: StaticServer and r :: request and w :: response and sc :: ServeContentFunc
    and fs :: StaticServer2 and lstat :: LstatFunc
    and serveFile :: "response \<Rightarrow> request \<Rightarrow> string \<Rightarrow> response"
  defines "c \<equiv> Clean (''/'' @ url_path r)"
  defines "idx \<equiv> Join [c, ''index.html'']"
  defines "run \<equiv> ServeHTTP sc ss w r"
  defines "c2 \<equiv> Join [root fs, c]"
  defines "run2 \<equiv> ServeHTTP2 lstat serveFile fs w r"
  shows
    "idx = (if c = ''/'' then ''/index.html'' else c @ ''/index.html'') \<and>
     (\<forall>d fi rds. stat ss c = Some d \<and> IsDir d \<and> stat ss idx = Some fi \<and> \<not> IsDir fi \<and>
        readerfn ss idx = Some rds \<longrightarrow>
          calls run = [CallStat c, CallStat idx, CallOpen idx,
                       CallServeContent (Name fi) (ModTime fi) rds] @
                      (if rs_closer rds then [CallClose] else []) \<and>
          resp run = sc w r (Name fi) (ModTime fi) rds \<and> \<not> panicked run) \<and>
     (\<forall>d fi. stat ss c = Some d \<and> IsDir d \<and> stat ss idx = Some fi \<and> \<not> IsDir fi \<and>
        readerfn ss idx = None \<longrightarrow>
          calls run = [CallStat c, CallStat idx, CallOpen idx,
                       CallHandler StatusInternalServerError]) \<and>
     code (resp (ServeHTTP ServeContent_plain (MapSS testmap None None) NewRecorder
                   (plain_get ''/''))) = 200 \<and>
     body (resp (ServeHTTP ServeContent_plain (MapSS testmap None None) NewRecorder
                   (plain_get ''/''))) = ''root index file'' \<and>
     code (resp (ServeHTTP ServeContent_plain (MapSS testmap None None) NewRecorder
                   (plain_get ''/sub/''))) = 200 \<and>
     body (resp (ServeHTTP ServeContent_plain (MapSS testmap None None) NewRecorder
                   (plain_get ''/sub/''))) = ''sub index file'' \<and>
     (\<forall>d fi. lstat c2 = Inr d \<and> IsDir d \<and> lstat (Join [c2, ''index.html'']) = Inr fi \<longrightarrow>
        calls run2 = [CallStat c2, CallStat (Join [c2, ''index.html'']),
                      CallServeFile (Join [c2, ''index.html''])] \<and>
        resp run2 = serveFile w r (Join [c2, ''index.html'']))"
proof -
  have 1: "idx = (if c = ''/'' then ''/index.html'' else c @ ''/index.html'')"
    unfolding idx_def c_def by (rule Join_index_append)
  have res: "resolve ss r = Some (idx, fi) \<and> stat_calls ss r = [CallStat c, CallStat idx]"
    if "stat ss c = Some d" "IsDir d" "stat ss idx = Some fi" "\<not> IsDir fi" for d fi
    using that by (auto simp: resolve_Some_iff stat_calls_def Let_def c_def idx_def)
  have 2: "\<forall>d fi rds. stat ss c = Some d \<and> IsDir d \<and> stat ss idx = Some fi \<and> \<not> IsDir fi \<and>
        readerfn ss idx = Some rds \<longrightarrow>
          calls run = [CallStat c, CallStat idx, CallOpen idx,
                       CallServeContent (Name fi) (ModTime fi) rds] @
                      (if rs_closer rds then [CallClose] else []) \<and>
          resp run = sc w r (Name fi) (ModTime fi) rds \<and> \<not> panicked run"
  proof (intro allI impI)
    fix d fi rds
    assume a: "stat ss c = Some d \<and> IsDir d \<and> stat ss idx = Some fi \<and> \<not> IsDir fi \<and>
        readerfn ss idx = Some rds"
    then have "resolve ss r = Some (idx, fi)" "stat_calls ss r = [CallStat c, CallStat idx]"
      "readerfn ss idx = Some rds"
      using res by blast+
    from run_served[OF this(1,3), of sc w] this(2)
    show "calls run = [CallStat c, CallStat idx, CallOpen idx,
                       CallServeContent (Name fi) (ModTime fi) rds] @
                      (if rs_closer rds then [CallClose] else []) \<and>
          resp run = sc w r (Name fi) (ModTime fi) rds \<and> \<not> panicked run"
      unfolding run_def by simp
  qed
  have 3: "\<forall>d fi. stat ss c = Some d \<and> IsDir d \<and> stat ss idx = Some fi \<and> \<not> IsDir fi \<and>
        readerfn ss idx = None \<longrightarrow>
          calls run = [CallStat c, CallStat idx, CallOpen idx,
                       CallHandler StatusInternalServerError]"
  proof (intro allI impI)
    fix d fi
    assume a: "stat ss c = Some d \<and> IsDir d \<and> stat ss idx = Some fi \<and> \<not> IsDir fi \<and>
        readerfn ss idx = None"
    then have "resolve ss r = Some (idx, fi)" "stat_calls ss r = [CallStat c, CallStat idx]"
      "readerfn ss idx = None"
      using res by blast+
    from run_open_fails(1)[OF this(1,3), of sc w] this(2)
    show "calls run = [CallStat c, CallStat idx, CallOpen idx,
                       CallHandler StatusInternalServerError]"
      unfolding run_def by simp
  qed
  have 4: "\<forall>d fi. lstat c2 = Inr d \<and> IsDir d \<and> lstat (Join [c2, ''index.html'']) = Inr fi \<longrightarrow>
        calls run2 = [CallStat c2, CallStat (Join [c2, ''index.html'']),
                      CallServeFile (Join [c2, ''index.html''])] \<and>
        resp run2 = serveFile w r (Join [c2, ''index.html''])"
  proof (intro allI impI)
    fix d fi
    assume "lstat c2 = Inr d \<and> IsDir d \<and> lstat (Join [c2, ''index.html'']) = Inr fi"
    then have a: "lstat (Join [root fs, Clean (''/'' @ url_path r)]) = Inr d" "IsDir d"
      "lstat (Join [Join [root fs, Clean (''/'' @ url_path r)], ''index.html'']) = Inr fi"
      unfolding c2_def c_def by blast+
    from ServeHTTP2_index[OF a, of serveFile w]
    show "calls run2 = [CallStat c2, CallStat (Join [c2, ''index.html'']),
                      CallServeFile (Join [c2, ''index.html''])] \<and>
        resp run2 = serveFile w r (Join [c2, ''index.html''])"
      unfolding run2_def c2_def c_def by simp
  qed
  show ?thesis
    by (intro conjI) (rule 1 2 3 4 TestIndex)+
qed

theorem index_document_served_witness:
  "Join [Clean (''/'' @ url_path (plain_get ''/sub/'')), ''index.html''] = ''/sub/index.html'' \<and>
   stat (MapSS testmap None None) ''/sub'' = Some (dir_info ''sub'') \<and>
   stat (MapSS testmap None None) ''/sub/index.html'' =
     Some (file_info ''index.html''\<lparr>Size := 14\<rparr>) \<and>
   calls (ServeHTTP ServeContent_plain (MapSS testmap None None) NewRecorder (plain_get ''/sub/'')) =
     [CallStat ''/sub'', CallStat ''/sub/index.html'', CallOpen ''/sub/index.html'',
      CallServeContent ''index.html'' 0
        \<lparr>rs_data = ''sub index file'', rs_closer = True, rs_closed = False\<rparr>,
      CallClose] \<and>
   code (resp (ServeHTTP ServeContent_plain (MapSS testmap None None) NewRecorder
                 (plain_get ''/sub/''))) = 200 \<and>
   body (resp (ServeHTTP ServeContent_plain (MapSS testmap None None) NewRecorder
                 (plain_get ''/sub/''))) = ''sub index file'' \<and>
   calls (ServeHTTP ServeContent_plain
            (RawStaticServer stat_index open_fails (setupErrorHandlers None) None)
            NewRecorder (plain_get ''/'')) =
     [CallStat ''/'', CallStat ''/index.html'', CallOpen ''/index.html'',
      CallHandler StatusInternalServerError] \<and>
   lstat_public ''public'' = Inr (dir_info ''public'') \<and>
   lstat_public ''public/index.html'' = Inr (file_info ''index.html'') \<and>
   calls (ServeHTTP2 lstat_public ServeFile_name \<lparr>root = ''public''\<rparr> NewRecorder
            (plain_get ''/'')) =
     [CallStat ''public'', CallStat ''public/index.html'', CallServeFile ''public/index.html'']"
proof -
  let ?ss = "MapSS testmap None None"
  let ?r = "plain_get ''/sub/''"
  let ?fi = "file_info ''index.html''\<lparr>Size := 14\<rparr>"
  let ?rd = "\<lparr>rs_data = ''sub index file'', rs_closer = True, rs_closed = False\<rparr>"
  let ?raw = "RawStaticServer stat_index open_fails (setupErrorHandlers None) None"
  let ?rq = "plain_get ''/''"
  have c: "Clean (''/'' @ url_path ?r) = ''/sub''"
    and idx: "Join [''/sub'', ''index.html''] = ''/sub/index.html''"
    and c0: "Clean (''/'' @ url_path ?rq) = ''/''"
    and idx0: "Join [''/'', ''index.html''] = ''/index.html''"
    and j: "Join [root \<lparr>root = ''public''\<rparr>, ''/''] = ''public''"
    and ji: "Join [''public'', ''index.html''] = ''public/index.html''"
    by code_simp+
  have hyp: "stat ?ss ''/sub'' = Some (dir_info ''sub'') \<and> IsDir (dir_info ''sub'') \<and>
      stat ?ss ''/sub/index.html'' = Some ?fi \<and> \<not> IsDir ?fi \<and>
      readerfn ?ss ''/sub/index.html'' = Some ?rd"
    by code_simp
  have hyp0: "stat ?raw ''/'' = Some (dir_info ''/'') \<and> IsDir (dir_info ''/'') \<and>
      stat ?raw ''/index.html'' = Some (file_info ''index.html'') \<and>
      \<not> IsDir (file_info ''index.html'') \<and> readerfn ?raw ''/index.html'' = None"
    by code_simp
  have hyp2: "lstat_public ''public'' = Inr (dir_info ''public'') \<and> IsDir (dir_info ''public'') \<and>
      lstat_public ''public/index.html'' = Inr (file_info ''index.html'')"
    by code_simp
  note T = index_document_served[where ss = ?ss and r = ?r and sc = ServeContent_plain
      and w = NewRecorder and lstat = lstat_public and fs = "\<lparr>root = ''public''\<rparr>"
      and serveFile = ServeFile_name, unfolded c idx]
  note run = T[THEN conjunct2, THEN conjunct1, rule_format, OF hyp]
  note T0 = index_document_served[where ss = ?raw and r = ?rq and sc = ServeContent_plain
      and w = NewRecorder and lstat = lstat_public and fs = "\<lparr>root = ''public''\<rparr>"
      and serveFile = ServeFile_name, unfolded c0 idx0 j ji]
  note run0 = T0[THEN conjunct2, THEN conjunct2, THEN conjunct1, rule_format, OF hyp0]
  note run2 = T0[THEN conjunct2, THEN conjunct2, THEN conjunct2, THEN conjunct2,
      THEN conjunct2, THEN conjunct2, THEN conjunct2, rule_format, OF hyp2]
  have nm: "Name ?fi = ''index.html''" "ModTime ?fi = 0" "rs_closer ?rd"
    by (simp_all add: file_info_def)
  from run run0 run2 hyp hyp2 T[THEN conjunct2, THEN conjunct2, THEN conjunct2]
  show ?thesis unfolding c idx nm by simp
qed

subsection \<open>C3: not found is terminal\<close>

text \<open>
  Stated of both variants of the resolver, the claim fails on the second one, which
  has no table of handlers: when the stat fails it answers 400 ``Bad Request''
  through \<^verbatim>\<open>http.Error\<close>, not 404.
\<close>

theorem bad_request_counterexample:
  "calls (ServeHTTP2 lstat_none ServeFile_name \<lparr>root = ''/srv''\<rparr> NewRecorder
            (plain_get ''/missing'')) =
     [CallStat ''/srv/missing'', CallError StatusBadRequest] \<and>
   code (resp (ServeHTTP2 lstat_none ServeFile_name \<lparr>root = ''/srv''\<rparr> NewRecorder
            (plain_get ''/missing''))) = StatusBadRequest \<and>
   code (resp (ServeHTTP2 lstat_none ServeFile_name \<lparr>root = ''/srv''\<rparr> NewRecorder
            (plain_get ''/missing''))) \<noteq> StatusNotFound"
  by code_simp

text \<open>
  C3 (amended). In the resolver with the handler table: when the stat of the cleaned
  path fails, or the cleaned path is a directory and the stat of its \<^verbatim>\<open>index.html\<close>
  fails, the table's entry for 404 is called and the run ends there, with no further
  stat and no open or serve call; a handler registered for 404 writes the response.
  Every run calls at most one handler: the entry for 404 when the request resolves
  to no file, the entry for 500 when the resolved file cannot be opened, and none
  exactly when the content is served. The second variant answers a failed stat with
  400 ``Bad Request'' and makes no further call.
\<close>

theorem not_found_terminal:
  fixes ss :: StaticServer and r :: request and w :: response and sc :: ServeContentFunc
    and fs :: StaticServer2 and lstat :: LstatFunc
    and serveFile :: "response \<Rightarrow> request \<Rightarrow> string \<Rightarrow> response"
  defines "c \<equiv> Clean (''/'' @ url_path r)"
  defines "idx \<equiv> Join [c, ''index.html'']"
  defines "run \<equiv> ServeHTTP sc ss w r"
  defines "run2 \<equiv> ServeHTTP2 lstat serveFile fs w r"
  shows
    "(stat ss c = None \<longrightarrow>
        calls run = [CallStat c, CallHandler StatusNotFound] \<and> reader run = None \<and>
        (\<forall>h. index_map (errorHandlers ss) StatusNotFound = Some h \<longrightarrow>
           resp run = h w r \<and> \<not> panicked run)) \<and>
     ((\<exists>d. stat ss c = Some d \<and> IsDir d) \<and> stat ss idx = None \<longrightarrow>
        calls run = [CallStat c, CallStat idx, CallHandler StatusNotFound] \<and> reader run = None \<and>
        (\<forall>h. index_map (errorHandlers ss) StatusNotFound = Some h \<longrightarrow>
           resp run = h w r \<and> \<not> panicked run)) \<and>
     handler_codes (calls run) =
       (case resolve ss r of
          None \<Rightarrow> [StatusNotFound]
        | Some qf \<Rightarrow>
            (case readerfn ss (fst qf) of
               None \<Rightarrow> [StatusInternalServerError]
             | Some rds \<Rightarrow> [])) \<and>
     (list_ex is_serve (calls run) \<longleftrightarrow> handler_codes (calls run) = []) \<and>
     (\<forall>err. lstat (Join [root fs, c]) = Inl err \<longrightarrow>
        calls run2 = [CallStat (Join [root fs, c]), CallError StatusBadRequest] \<and>
        resp run2 = http_Error w ''Bad Request'' StatusBadRequest)"
proof -
  have nf: "calls run = stat_calls ss r @ [CallHandler StatusNotFound] \<and> reader run = None \<and>
        (\<forall>h. index_map (errorHandlers ss) StatusNotFound = Some h \<longrightarrow>
           resp run = h w r \<and> \<not> panicked run)" if "resolve ss r = None"
    using run_not_found[OF that, of sc w] unfolding run_def by (simp add: handled_Some)
  have 1: "calls run = [CallStat c, CallHandler StatusNotFound] \<and> reader run = None \<and>
        (\<forall>h. index_map (errorHandlers ss) StatusNotFound = Some h \<longrightarrow>
           resp run = h w r \<and> \<not> panicked run)" if "stat ss c = None"
  proof -
    from that have "resolve ss r = None" "stat_calls ss r = [CallStat c]"
      by (simp_all add: resolve_None_iff stat_calls_def Let_def c_def)
    with nf show ?thesis by simp
  qed
  have 2: "calls run = [CallStat c, CallStat idx, CallHandler StatusNotFound] \<and> reader run = None \<and>
        (\<forall>h. index_map (errorHandlers ss) StatusNotFound = Some h \<longrightarrow>
           resp run = h w r \<and> \<not> panicked run)"
    if "\<exists>d. stat ss c = Some d \<and> IsDir d" "stat ss idx = None"
  proof -
    from that have "resolve ss r = None" "stat_calls ss r = [CallStat c, CallStat idx]"
      by (auto simp: resolve_None_iff stat_calls_def Let_def c_def idx_def)
    with nf show ?thesis by simp
  qed
  have 3: "list_ex is_serve (calls run) \<longleftrightarrow> handler_codes (calls run) = []"
    unfolding run_def run_serve_calls run_handler_codes
    by (auto split: option.splits)
  from 1 2 3 ServeHTTP2_stat_fails[of lstat fs r _ serveFile w] show ?thesis
    unfolding run_def run2_def c_def by (simp add: run_handler_codes)
qed

theorem not_found_terminal_witness:
  "stat (MapSS [] None None) (Clean (''/'' @ url_path (plain_get ''/''))) = None \<and>
   calls (ServeHTTP ServeContent_plain (MapSS [] None None) NewRecorder (plain_get ''/'')) =
     [CallStat ''/'', CallHandler StatusNotFound] \<and>
   resp (ServeHTTP ServeContent_plain (MapSS [] None None) NewRecorder (plain_get ''/'')) =
     http_Error NewRecorder ''Not Found'' StatusNotFound \<and>
   stat (MapSS [(''sub/test.html'', ''Dummy file'')] None None)
      (Clean (''/'' @ url_path (plain_get ''/sub''))) = Some (dir_info ''sub'') \<and>
   stat (MapSS [(''sub/test.html'', ''Dummy file'')] None None)
      (Join [Clean (''/'' @ url_path (plain_get ''/sub'')), ''index.html'']) = None \<and>
   calls (ServeHTTP ServeContent_plain (MapSS [(''sub/test.html'', ''Dummy file'')] None None)
            NewRecorder (plain_get ''/sub'')) =
     [CallStat ''/sub'', CallStat ''/sub/index.html'', CallHandler StatusNotFound] \<and>
   resp (ServeHTTP ServeContent_plain (MapSS [(''sub/test.html'', ''Dummy file'')] None None)
            NewRecorder (plain_get ''/sub'')) =
     http_Error NewRecorder ''Not Found'' StatusNotFound \<and>
   handler_codes (calls (ServeHTTP ServeContent_plain
       (MapSS [(''sub/test.html'', ''Dummy file'')] None None) NewRecorder (plain_get ''/sub''))) =
     [StatusNotFound] \<and>
   lstat_none (Join [root \<lparr>root = ''/srv''\<rparr>, Clean (''/'' @ url_path (plain_get ''/sub''))]) =
     Inl ''no such file or directory'' \<and>
   calls (ServeHTTP2 lstat_none ServeFile_name \<lparr>root = ''/srv''\<rparr> NewRecorder (plain_get ''/sub'')) =
     [CallStat ''/srv/sub'', CallError StatusBadRequest]"
proof -
  let ?sse = "MapSS [] None None"
  let ?rq = "plain_get ''/''"
  let ?ss = "MapSS [(''sub/test.html'', ''Dummy file'')] None None"
  let ?r = "plain_get ''/sub''"
  have c0: "Clean (''/'' @ url_path ?rq) = ''/''"
    and s0: "stat ?sse ''/'' = None"
    and c: "Clean (''/'' @ url_path ?r) = ''/sub''"
    and idx: "Join [''/sub'', ''index.html''] = ''/sub/index.html''"
    and s1: "stat ?ss ''/sub'' = Some (dir_info ''sub'')" "IsDir (dir_info ''sub'')"
    and s2: "stat ?ss ''/sub/index.html'' = None"
    and j2: "Join [root \<lparr>root = ''/srv''\<rparr>, ''/sub''] = ''/srv/sub''"
    and l2: "lstat_none ''/srv/sub'' = Inl ''no such file or directory''"
    by code_simp+
  have h0: "index_map (errorHandlers ?sse) StatusNotFound =
             Some (\<lambda>w r. http_Error w ''Not Found'' StatusNotFound)"
    and h: "index_map (errorHandlers ?ss) StatusNotFound =
             Some (\<lambda>w r. http_Error w ''Not Found'' StatusNotFound)"
    by (simp_all add: MapSS_def VFSStaticServer_def index_setup_default)
  note A = not_found_terminal[where ss = ?sse and r = ?rq and sc = ServeContent_plain
      and w = NewRecorder and lstat = lstat_none and fs = "\<lparr>root = ''/srv''\<rparr>"
      and serveFile = ServeFile_name, unfolded c0, THEN conjunct1, rule_format, OF s0]
  note T = not_found_terminal[where ss = ?ss and r = ?r and sc = ServeContent_plain
      and w = NewRecorder and lstat = lstat_none and fs = "\<lparr>root = ''/srv''\<rparr>"
      and serveFile = ServeFile_name, unfolded c idx j2]
  have d: "(\<exists>d. stat ?ss ''/sub'' = Some d \<and> IsDir d) \<and> stat ?ss ''/sub/index.html'' = None"
    using s1 s2 by blast
  note B = T[THEN conjunct2, THEN conjunct1, rule_format, OF d]
  note C = T[THEN conjunct2, THEN conjunct2, THEN conjunct2, THEN conjunct2, rule_format, OF l2]
  from A B C show ?thesis
    unfolding c0 c idx j2 using s0 s1 s2 l2 h0 h by (simp add: handler_codes_def)
qed

subsection \<open>C4: an index that is a directory\<close>

text \<open>
  Stated of both variants of the resolver, the claim fails on the second one, which
  takes the first default file that stats, directory or not, and hands it to
  \<^verbatim>\<open>http.ServeFile\<close>.
\<close>

theorem index_directory_served_counterexample:
  "lstat_dirs ''/srv/index.html'' = Inr (dir_info ''index.html'') \<and>
   calls (ServeHTTP2 lstat_dirs ServeFile_name \<lparr>root = ''/srv''\<rparr> NewRecorder
            (plain_get ''/'')) =
     [CallStat ''/srv'', CallStat ''/srv/index.html'', CallServeFile ''/srv/index.html''] \<and>
   code (resp (ServeHTTP2 lstat_dirs ServeFile_name \<lparr>root = ''/srv''\<rparr> NewRecorder
            (plain_get ''/''))) = 200"
  by code_simp

text \<open>
  C4 (amended). In the resolver with the handler table: when the cleaned path is a
  directory and its \<^verbatim>\<open>index.html\<close> stats as a directory too, the table's entry for
  404 is called after these two stats and the run ends, without open or serve call; a
  handler registered for 404 writes the response. No run stats more than twice, and
  the content-serving primitive is only ever called for a path that stats as a
  non-directory, with the reader the backend opened on it.
\<close>

theorem index_directory_not_found:
  fixes ss :: StaticServer and r :: request and w :: response and sc :: ServeContentFunc
  defines "c \<equiv> Clean (''/'' @ url_path r)"
  defines "idx \<equiv> Join [c, ''index.html'']"
  defines "run \<equiv> ServeHTTP sc ss w r"
  shows
    "((\<exists>d. stat ss c = Some d \<and> IsDir d) \<and> (\<exists>d'. stat ss idx = Some d' \<and> IsDir d') \<longrightarrow>
        calls run = [CallStat c, CallStat idx, CallHandler StatusNotFound] \<and> reader run = None \<and>
        (\<forall>h. index_map (errorHandlers ss) StatusNotFound = Some h \<longrightarrow>
           resp run = h w r \<and> \<not> panicked run)) \<and>
     length (filter is_stat (calls run)) \<le> 2 \<and>
     (\<forall>n t rd. CallServeContent n t rd \<in> set (calls run) \<longrightarrow>
        (\<exists>q fi. stat ss q = Some fi \<and> \<not> IsDir fi \<and> readerfn ss q = Some rd \<and>
                n = Name fi \<and> t = ModTime fi))"
proof -
  have 1: "calls run = [CallStat c, CallStat idx, CallHandler StatusNotFound] \<and> reader run = None \<and>
        (\<forall>h. index_map (errorHandlers ss) StatusNotFound = Some h \<longrightarrow>
           resp run = h w r \<and> \<not> panicked run)"
    if "\<exists>d. stat ss c = Some d \<and> IsDir d" "\<exists>d'. stat ss idx = Some d' \<and> IsDir d'"
  proof -
    from that have "resolve ss r = None" "stat_calls ss r = [CallStat c, CallStat idx]"
      by (auto simp: resolve_None_iff stat_calls_def Let_def c_def idx_def)
    with run_not_found[OF this(1), of sc w] show ?thesis
      unfolding run_def by (simp add: handled_Some)
  qed
  have 2: "length (filter is_stat (calls run)) \<le> 2"
    unfolding run_def run_stat_calls by (rule stat_calls_stats(2))
  have 3: "\<exists>q fi. stat ss q = Some fi \<and> \<not> IsDir fi \<and> readerfn ss q = Some rd \<and>
                n = Name fi \<and> t = ModTime fi"
    if "CallServeContent n t rd \<in> set (calls run)" for n t rd
    using CallServeContent_in_calls[OF that[unfolded run_def]] resolve_stat by blast
  from 1 2 3 show ?thesis by blast
qed

theorem index_directory_not_found_witness:
  "stat (MapSS [(''index.html/index.html'', ''This should fail'')] None None)
      (Clean (''/'' @ url_path (plain_get ''/''))) = Some (dir_info ''/'') \<and>
   stat (MapSS [(''index.html/index.html'', ''This should fail'')] None None)
      (Join [Clean (''/'' @ url_path (plain_get ''/'')), ''index.html'']) =
        Some (dir_info ''index.html'') \<and>
   calls (ServeHTTP ServeContent_plain
            (MapSS [(''index.html/index.html'', ''This should fail'')] None None)
            NewRecorder (plain_get ''/'')) =
     [CallStat ''/'', CallStat ''/index.html'', CallHandler StatusNotFound] \<and>
   resp (ServeHTTP ServeContent_plain
            (MapSS [(''index.html/index.html'', ''This should fail'')] None None)
            NewRecorder (plain_get ''/'')) =
     http_Error NewRecorder ''Not Found'' StatusNotFound"
proof -
  let ?ss = "MapSS [(''index.html/index.html'', ''This should fail'')] None None"
  let ?r = "plain_get ''/''"
  have c: "Clean (''/'' @ url_path ?r) = ''/''"
    and idx: "Join [''/'', ''index.html''] = ''/index.html''"
    and s1: "stat ?ss ''/'' = Some (dir_info ''/'')" "IsDir (dir_info ''/'')"
    and s2: "stat ?ss ''/index.html'' = Some (dir_info ''index.html'')"
      "IsDir (dir_info ''index.html'')"
    by code_simp+
  have h: "index_map (errorHandlers ?ss) StatusNotFound =
             Some (\<lambda>w r. http_Error w ''Not Found'' StatusNotFound)"
    by (simp add: MapSS_def VFSStaticServer_def index_setup_default)
  from index_directory_not_found[where ss = ?ss and r = ?r and sc = ServeContent_plain
      and w = NewRecorder]
  show ?thesis unfolding c idx using s1 s2 h by simp
qed

subsection \<open>C5: handlers supplied by the caller, and the defaults\<close>

text \<open>
  C5. The constructors on a file system install \<open>setupErrorHandlers\<close> of the
  caller's table (\<open>constructors_errorHandlers\<close>): a handler supplied for 404 or 500
  is the table's entry (\<open>index_setup_custom\<close>), and the default plain-text handler
  is where the caller's table has none or is \<^verbatim>\<open>nil\<close> (\<open>index_setup_default\<close>).
  \<^verbatim>\<open>RawStaticServer\<close> installs the caller's table as it is: with a \<^verbatim>\<open>nil\<close> table, as in
  the test \<^verbatim>\<open>TestClose\<close>, a request for a path that does not stat calls a \<^verbatim>\<open>nil\<close>
  handler and panics, where the same backend behind \<^verbatim>\<open>VFSStaticServer\<close> answers 404.
\<close>

theorem raw_nil_table_panics:
  "errorHandlers (RawStaticServer stat_fails open_fails None None) = None \<and>
   calls (ServeHTTP ServeContent_plain (RawStaticServer stat_fails open_fails None None)
            NewRecorder (plain_get ''/x'')) = [CallStat ''/x'', CallHandler StatusNotFound] \<and>
   panicked (ServeHTTP ServeContent_plain (RawStaticServer stat_fails open_fails None None)
            NewRecorder (plain_get ''/x'')) \<and>
   code (resp (ServeHTTP ServeContent_plain (RawStaticServer stat_fails open_fails None None)
            NewRecorder (plain_get ''/x''))) = 200 \<and>
   body (resp (ServeHTTP ServeContent_plain (RawStaticServer stat_fails open_fails None None)
            NewRecorder (plain_get ''/x''))) = [] \<and>
   \<not> panicked (ServeHTTP ServeContent_plain
            (VFSStaticServer \<lparr>Lstat = stat_fails, Open = open_fails\<rparr> None None)
            NewRecorder (plain_get ''/x'')) \<and>
   code (resp (ServeHTTP ServeContent_plain
            (VFSStaticServer \<lparr>Lstat = stat_fails, Open = open_fails\<rparr> None None)
            NewRecorder (plain_get ''/x''))) = StatusNotFound"
  by code_simp

subsection \<open>C6: a failed open is an internal error\<close>

text \<open>
  C6. For every request that resolves to a file \<open>q\<close> (the stat of \<open>q\<close> succeeded and
  \<open>q\<close> is not a directory: \<open>resolve_Some_iff\<close>) on which the backend fails to
  open a reader, the table's entry for 500 is called right after the failed open and
  the run ends: a handler registered for 500 writes the response, the
  content-serving primitive is never called and no reader is left.
\<close>

theorem open_failure_internal_error:
  assumes "resolve ss r = Some (q, fi)" and "readerfn ss q = None"
  shows "stat ss q = Some fi \<and> \<not> IsDir fi \<and>
         calls (ServeHTTP sc ss w r) =
           stat_calls ss r @ [CallOpen q, CallHandler StatusInternalServerError] \<and>
         \<not> list_ex is_serve (calls (ServeHTTP sc ss w r)) \<and>
         reader (ServeHTTP sc ss w r) = None \<and>
         (\<forall>h. index_map (errorHandlers ss) StatusInternalServerError = Some h \<longrightarrow>
            resp (ServeHTTP sc ss w r) = h w r \<and> \<not> panicked (ServeHTTP sc ss w r))"
proof -
  note run = run_open_fails[OF assms, of sc w]
  have "\<not> list_ex is_serve (calls (ServeHTTP sc ss w r))"
    using assms by (simp add: run_serve_calls)
  with run resolve_stat[OF assms(1)] show ?thesis by (simp add: handled_Some)
qed

theorem open_failure_internal_error_witness:
  "resolve (RawStaticServer stat_index open_fails (setupErrorHandlers None) None) (plain_get ''/'') =
     Some (''/index.html'', file_info ''index.html'') \<and>
   calls (ServeHTTP ServeContent_plain
            (RawStaticServer stat_index open_fails (setupErrorHandlers None) None)
            NewRecorder (plain_get ''/'')) =
     [CallStat ''/'', CallStat ''/index.html'', CallOpen ''/index.html'',
      CallHandler StatusInternalServerError] \<and>
   resp (ServeHTTP ServeContent_plain
            (RawStaticServer stat_index open_fails (setupErrorHandlers None) None)
            NewRecorder (plain_get ''/'')) =
     http_Error NewRecorder ''Internal Server Error'' StatusInternalServerError \<and>
   \<not> panicked (ServeHTTP ServeContent_plain
            (RawStaticServer stat_index open_fails (setupErrorHandlers None) None)
            NewRecorder (plain_get ''/''))"
proof -
  let ?ss = "RawStaticServer stat_index open_fails (setupErrorHandlers None) None"
  let ?r = "plain_get ''/''"
  have res: "resolve ?ss ?r = Some (''/index.html'', file_info ''index.html'')"
    and op: "readerfn ?ss ''/index.html'' = None"
    and sc: "stat_calls ?ss ?r = [CallStat ''/'', CallStat ''/index.html'']"
    by code_simp+
  have h: "index_map (errorHandlers ?ss) StatusInternalServerError =
             Some (\<lambda>w r. http_Error w ''Internal Server Error'' StatusInternalServerError)"
    by (simp add: RawStaticServer_def index_setup_default)
  from open_failure_internal_error[OF res op, of ServeContent_plain NewRecorder]
  show ?thesis using res sc h by simp
qed

subsection \<open>C7: a reader that can be closed is closed\<close>

text \<open>
  C7. For every request on which a reader is opened (the request resolves to a file
  and the backend opens a reader on it) and the reader has a \<^verbatim>\<open>Close\<close> method,
  \<^verbatim>\<open>Close\<close> is the last call of the run, right after the content-serving step,
  whatever that step writes (for every primitive \<open>sc\<close>); at the end the reader's
  closed flag is set.
\<close>

theorem closable_reader_closed:
  assumes "resolve ss r = Some (q, fi)" and "readerfn ss q = Some rds" and "rs_closer rds"
  shows "reader (ServeHTTP sc ss w r) = Some (rds\<lparr>rs_closed := True\<rparr>) \<and>
         calls (ServeHTTP sc ss w r) =
           stat_calls ss r @
             [CallOpen q, CallServeContent (Name fi) (ModTime fi) rds, CallClose] \<and>
         resp (ServeHTTP sc ss w r) = sc w r (Name fi) (ModTime fi) rds \<and>
         \<not> panicked (ServeHTTP sc ss w r)"
  using run_served[OF assms(1,2), of sc w] assms(3) by simp

theorem closable_reader_closed_witness:
  "readerfn (RawStaticServer memfile_stat memfile_Open None None) ''/test.txt'' =
     Some \<lparr>rs_data = ''this is a test file.'', rs_closer = True, rs_closed = False\<rparr> \<and>
   reader (ServeHTTP ServeContent_plain (RawStaticServer memfile_stat memfile_Open None None)
             NewRecorder (plain_get ''/test.txt'')) =
     Some \<lparr>rs_data = ''this is a test file.'', rs_closer = True, rs_closed = True\<rparr> \<and>
   calls (ServeHTTP ServeContent_plain (RawStaticServer memfile_stat memfile_Open None None)
             NewRecorder (plain_get ''/test.txt'')) =
     [CallStat ''/test.txt'', CallOpen ''/test.txt'',
      CallServeContent ''test.txt'' 0
        \<lparr>rs_data = ''this is a test file.'', rs_closer = True, rs_closed = False\<rparr>,
      CallClose] \<and>
   body (resp (ServeHTTP ServeContent_plain (RawStaticServer memfile_stat memfile_Open None None)
             NewRecorder (plain_get ''/test.txt''))) = ''this is a test file.''"
proof -
  let ?ss = "RawStaticServer memfile_stat memfile_Open None None"
  let ?r = "plain_get ''/test.txt''"
  let ?rd = "\<lparr>rs_data = ''this is a test file.'', rs_closer = True, rs_closed = False\<rparr>"
  have res: "resolve ?ss ?r = Some (''/test.txt'', file_info ''test.txt'')"
    and op: "readerfn ?ss ''/test.txt'' = Some ?rd"
    and cl: "rs_closer ?rd"
    and sc: "stat_calls ?ss ?r = [CallStat ''/test.txt'']"
    by code_simp+
  from closable_reader_closed[OF res op cl, of ServeContent_plain NewRecorder]
  show ?thesis using op sc
    by (simp add: file_info_def ServeContent_plain_def NewRecorder_def)
qed

subsection \<open>C8: readers opened per request\<close>

text \<open>
  The claim as stated fails on the not-found path: the handler returns before the
  backend's open function is called, so no reader is opened.
\<close>

theorem not_found_opens_nothing_counterexample:
  "filter is_open (calls (ServeHTTP ServeContent_plain (MapSS [] None None) NewRecorder
                            (plain_get ''/''))) = [] \<and>
   reader (ServeHTTP ServeContent_plain (MapSS [] None None) NewRecorder (plain_get ''/'')) = None \<and>
   calls (ServeHTTP ServeContent_plain (MapSS [] None None) NewRecorder (plain_get ''/'')) =
     [CallStat ''/'', CallHandler StatusNotFound] \<and>
   code (resp (ServeHTTP ServeContent_plain (MapSS [] None None) NewRecorder (plain_get ''/''))) =
     StatusNotFound"
  by code_simp

text \<open>
  C8 (amended). Every request makes at most one call to the backend's open function:
  exactly one, on the resolved path, when the request resolves to a file, and none
  when it ends not-found. A reader is opened only when that call succeeds.
\<close>

theorem at_most_one_open:
  "filter is_open (calls (ServeHTTP sc ss w r)) =
     (case resolve ss r of None \<Rightarrow> [] | Some qf \<Rightarrow> [CallOpen (fst qf)]) \<and>
   length (filter is_open (calls (ServeHTTP sc ss w r))) \<le> 1 \<and>
   (reader (ServeHTTP sc ss w r) \<noteq> None \<longleftrightarrow>
      (\<exists>q fi rds. resolve ss r = Some (q, fi) \<and> readerfn ss q = Some rds))"
proof -
  have "length (filter is_open (calls (ServeHTTP sc ss w r))) \<le> 1"
    unfolding run_open_calls by (simp split: option.splits)
  with run_open_calls[of sc ss w r] run_reader[of sc ss w r] show ?thesis by blast
qed

theorem at_most_one_open_witness:
  "filter is_open (calls (ServeHTTP ServeContent_plain (MapSS testmap None None) NewRecorder
                            (plain_get ''/sub/''))) = [CallOpen ''/sub/index.html''] \<and>
   resolve (MapSS testmap None None) (plain_get ''/sub/'') =
     Some (''/sub/index.html'', file_info ''index.html''\<lparr>Size := 14\<rparr>) \<and>
   reader (ServeHTTP ServeContent_plain (MapSS testmap None None) NewRecorder
             (plain_get ''/sub/'')) \<noteq> None"
proof -
  let ?ss = "MapSS testmap None None"
  let ?r = "plain_get ''/sub/''"
  have res: "resolve ?ss ?r = Some (''/sub/index.html'', file_info ''index.html''\<lparr>Size := 14\<rparr>)"
    and op: "readerfn ?ss ''/sub/index.html'' =
               Some \<lparr>rs_data = ''sub index file'', rs_closer = True, rs_closed = False\<rparr>"
    by code_simp+
  from at_most_one_open[of ServeContent_plain ?ss NewRecorder ?r]
  show ?thesis using res op by simp
qed

subsection \<open>C9: the logger has no effect on the response\<close>

text \<open>
  C9. For every request, backend, handler table and content-serving primitive, a run
  with a logger and a run without one write the same response (status, headers and
  body); they also make the same calls, agree on panicking and leave the same
  reader.
\<close>

theorem logger_has_no_effect:
  "resp (ServeHTTP sc (ss\<lparr>logger := Some lg\<rparr>) w r) =
     resp (ServeHTTP sc (ss\<lparr>logger := None\<rparr>) w r) \<and>
   panicked (ServeHTTP sc (ss\<lparr>logger := Some lg\<rparr>) w r) =
     panicked (ServeHTTP sc (ss\<lparr>logger := None\<rparr>) w r) \<and>
   calls (ServeHTTP sc (ss\<lparr>logger := Some lg\<rparr>) w r) =
     calls (ServeHTTP sc (ss\<lparr>logger := None\<rparr>) w r) \<and>
   reader (ServeHTTP sc (ss\<lparr>logger := Some lg\<rparr>) w r) =
     reader (ServeHTTP sc (ss\<lparr>logger := None\<rparr>) w r)"
  by (simp add: logger_irrelevant)

theorem logger_has_no_effect_witness:
  "resp (ServeHTTP ServeContent_plain ((MapSS testmap None None)\<lparr>logger := Some ''TestVFS''\<rparr>)
           NewRecorder (plain_get ''/sub/'')) =
     resp (ServeHTTP ServeContent_plain ((MapSS testmap None None)\<lparr>logger := None\<rparr>)
           NewRecorder (plain_get ''/sub/'')) \<and>
   body (resp (ServeHTTP ServeContent_plain ((MapSS testmap None None)\<lparr>logger := Some ''TestVFS''\<rparr>)
           NewRecorder (plain_get ''/sub/''))) = ''sub index file'' \<and>
   length (logged (ServeHTTP ServeContent_plain ((MapSS testmap None None)\<lparr>logger := Some ''TestVFS''\<rparr>)
           NewRecorder (plain_get ''/sub/''))) = 3"
proof -
  have "body (resp (ServeHTTP ServeContent_plain ((MapSS testmap None None)\<lparr>logger := Some ''TestVFS''\<rparr>)
           NewRecorder (plain_get ''/sub/''))) = ''sub index file''"
    by code_simp
  moreover have "length (logged (ServeHTTP ServeContent_plain
           ((MapSS testmap None None)\<lparr>logger := Some ''TestVFS''\<rparr>)
           NewRecorder (plain_get ''/sub/''))) = 3"
    by code_simp
  ultimately show ?thesis
    using logger_has_no_effect[where sc = ServeContent_plain and ss = "MapSS testmap None None"
        and lg = "''TestVFS''" and w = NewRecorder and r = "plain_get ''/sub/''"]
    by simp
qed

subsection \<open>C10: the installed table has the codes 404 and 500 only\<close>

text \<open>
  C10. For every caller-supplied table that is not \<^verbatim>\<open>nil\<close>, the table installed by
  the constructors that apply the defaults (\<^verbatim>\<open>VFSStaticServer\<close>, \<^verbatim>\<open>MapSS\<close>, \<^verbatim>\<open>OSSS\<close>,
  \<^verbatim>\<open>ZipSS\<close>) has exactly the keys 404 and 500: a handler the caller supplied for any
  other code is not in it, and the resolver calls no entry but those of 404 and 500.
\<close>

theorem handler_table_codes:
  "(\<exists>t. errorHandlers (VFSStaticServer f (Some m) lg) = Some t \<and>
        dom t = {StatusNotFound, StatusInternalServerError}) \<and>
   (\<exists>t. errorHandlers (MapSS fs (Some m) lg) = Some t \<and>
        dom t = {StatusNotFound, StatusInternalServerError}) \<and>
   (\<exists>t. errorHandlers (OSSS vfs_OS rootdir (Some m) lg) = Some t \<and>
        dom t = {StatusNotFound, StatusInternalServerError}) \<and>
   (\<exists>t. errorHandlers (ZipSS zipfs_New rc name (Some m) lg) = Some t \<and>
        dom t = {StatusNotFound, StatusInternalServerError}) \<and>
   (\<forall>k h. k \<noteq> StatusNotFound \<and> k \<noteq> StatusInternalServerError \<and> m k = Some h \<longrightarrow>
      index_map (errorHandlers (VFSStaticServer f (Some m) lg)) k = None) \<and>
   (\<forall>k \<in> set (handler_codes (calls (ServeHTTP sc ss w r))).
      k = StatusNotFound \<or> k = StatusInternalServerError)"
proof -
  have "k = StatusNotFound \<or> k = StatusInternalServerError"
    if "k \<in> set (handler_codes (calls (ServeHTTP sc ss w r)))" for k
    using that unfolding run_handler_codes by (auto split: option.splits)
  then show ?thesis
    using dom_setupErrorHandlers[of "Some m"]
    by (simp add: constructors_errorHandlers index_setup_other)
qed

theorem handler_table_codes_witness:
  "(\<exists>t. errorHandlers (MapSS [] (Some [StatusNotFound \<mapsto> Some notfound, 403 \<mapsto> Some notfound]) None)
           = Some t \<and> dom t = {StatusNotFound, StatusInternalServerError}) \<and>
   index_map (errorHandlers (VFSStaticServer (mapfs_New [])
       (Some [StatusNotFound \<mapsto> Some notfound, 403 \<mapsto> Some notfound]) None)) 403 = None \<and>
   handler_codes (calls (ServeHTTP ServeContent_plain
       (MapSS [] (Some [StatusNotFound \<mapsto> Some notfound, 403 \<mapsto> Some notfound]) None)
       NewRecorder (plain_get ''/''))) = [StatusNotFound]"
proof -
  let ?m = "[StatusNotFound \<mapsto> Some notfound, 403 \<mapsto> Some notfound]"
  have m: "?m 403 = Some (Some notfound)" by simp
  have hc: "handler_codes (calls (ServeHTTP ServeContent_plain (MapSS [] (Some ?m) None)
       NewRecorder (plain_get ''/''))) = [StatusNotFound]"
  proof -
    have "resolve (MapSS [] (Some ?m) None) (plain_get ''/'') = None"
      unfolding resolve_def MapSS_def VFSStaticServer_def by code_simp
    then show ?thesis by (simp add: run_handler_codes)
  qed
  from handler_table_codes[where m = ?m and fs = "[]" and lg = None and f = "mapfs_New []"
      and vfs_OS = "\<lambda>p. mapfs_New []" and rootdir = "[]"
      and zipfs_New = "\<lambda>(rc :: unit) n. mapfs_New []" and name = "[]"
      and sc = ServeContent_plain and ss = "MapSS [] (Some ?m) None" and w = NewRecorder
      and r = "plain_get ''/''"]
  show ?thesis using m hc by auto
qed

end
